theory Spec2Isabelle
  imports Main "HOL-Library.AList"
begin

section \<open>JSON values\<close>

text \<open>
  The document held by \<open>JsonDb\<close> is a JavaScript value that came from \<open>JSON.parse\<close> or
  from the caller. Objects are association lists in insertion order (\<open>map_of\<close> reads a
  key). \<open>JUndefined\<close> is JavaScript's \<open>undefined\<close>, which exists in memory only.
  Numbers are integers: every number the store itself produces is a \<open>Date.now()\<close>
  timestamp in milliseconds.
\<close>

datatype json =
    JUndefined
  | JNull
  | JBool bool
  | JNum int
  | JStr string
  | JArr "json list"
  | JObj "(string \<times> json) list"

text \<open>
  What \<open>JSON.parse(JSON.stringify(v))\<close> gives back: a field holding \<open>undefined\<close> is
  dropped, an array element \<open>undefined\<close> becomes \<open>null\<close>.
\<close>

fun stringify_parse :: "json \<Rightarrow> json" where
  "stringify_parse (JObj fs) =
     JObj (map (\<lambda>kv. (fst kv, stringify_parse (snd kv)))
            (filter (\<lambda>kv. snd kv \<noteq> JUndefined) fs))"
| "stringify_parse (JArr xs) =
     JArr (map (\<lambda>v. if v = JUndefined then JNull else stringify_parse v) xs)"
| "stringify_parse v = v"

text \<open>JavaScript's falsy values, as \<open>!raw\<close> tests them.\<close>

fun falsy :: "json \<Rightarrow> bool" where
  "falsy JUndefined = True"
| "falsy JNull = True"
| "falsy (JBool b) = (\<not> b)"
| "falsy (JNum n) = (n = 0)"
| "falsy (JStr t) = (t = [])"
| "falsy (JArr xs) = False"
| "falsy (JObj fs) = False"

text \<open>
  Reading the property \<open>k\<close> of a value, for a name that is no built-in property
  (\<open>meta\<close>, \<open>data\<close>, \<open>createTime\<close>, ...): \<open>None\<close> is the \<open>TypeError\<close> raised on
  \<open>undefined\<close> and \<open>null\<close>; a value without the property reads \<open>undefined\<close>.
\<close>

fun member_of :: "json \<Rightarrow> string \<Rightarrow> json option" where
  "member_of JUndefined k = None"
| "member_of JNull k = None"
| "member_of (JObj fs) k = Some (case map_of fs k of Some v \<Rightarrow> v | None \<Rightarrow> JUndefined)"
| "member_of v k = Some JUndefined"

text \<open>\<open>typeof v === 'number'\<close>\<close>

fun is_number :: "json \<Rightarrow> bool" where
  "is_number (JNum n) = True"
| "is_number v = False"

fun num_of :: "json \<Rightarrow> int option" where
  "num_of (JNum n) = Some n"
| "num_of v = None"


section \<open>The merge engine\<close>

text \<open>
  Modelled from the spec: \<open>getCustomAssign\<close> and \<open>ASSIGN_DEFAULT_OPTIONS\<close> of the package
  \<open>super-assign\<close>, from which \<open>assignDeepWithDelete\<close> is built with
  \<open>deleteValue: null\<close>; the package is not part of the sources. The spec's contract:
  for every field present in the update, the delete sentinel removes the field, a nested
  mapping is merged recursively, anything else replaces the field; fields absent from
  the update are untouched; a mapping merged into a field that holds no mapping replaces
  the field, and the sentinel removes a key at any depth, so the replacement is the
  update merged into an empty mapping. The sentinel is \<open>null\<close>, as line 11 of
  \<open>json-db/index.ts\<close> sets it.
\<close>

fun assign_fields :: "(string \<times> json) list \<Rightarrow> (string \<times> json) list \<Rightarrow> (string \<times> json) list"
  and assign_field :: "(string \<times> json) list \<Rightarrow> string \<Rightarrow> json \<Rightarrow> (string \<times> json) list" where
  "assign_fields d [] = d"
| "assign_fields d ((k, v) # us) = assign_fields (assign_field d k v) us"
| "assign_field d k JNull = AList.delete k d"
| "assign_field d k (JObj u) =
     AList.update k
       (JObj (assign_fields (case map_of d k of Some (JObj d') \<Rightarrow> d' | _ \<Rightarrow> []) u)) d"
| "assign_field d k v = AList.update k v d"

text \<open>
  Modelled from the spec: the call \<open>assignDeepWithDelete(target, source)\<close>. The spec
  defines it on mappings; the call's result is discarded by \<open>update\<close>, so a target that
  is no mapping is left as it is.
\<close>

fun assignDeepWithDelete :: "json \<Rightarrow> json \<Rightarrow> json" where
  "assignDeepWithDelete (JObj d) (JObj u) = JObj (assign_fields d u)"
| "assignDeepWithDelete t u = t"




section \<open>Options, metadata and the stored record\<close>

text \<open>
  \<open>JsonDbOptions\<close>: every field is optional. \<open>afterSync\<close> is a callback without a
  result and is left out; the hooks \<open>beforeSync\<close> and \<open>afterLoad\<close> are functions of the
  data. \<open>prettify\<close> chooses the layout of the text only.
\<close>

record JsonDbOptions =
  syncThrottle :: "int option"
  prettify :: "bool option"
  initialData :: "json option"
  throwIfNotExists :: "bool option"
  beforeSync :: "(json \<Rightarrow> json) option"
  afterLoad :: "(json \<Rightarrow> json) option"

text \<open>The defaults the constructor puts under the caller's options.\<close>

definition opt_syncThrottle :: "JsonDbOptions \<Rightarrow> int" where
  "opt_syncThrottle opts = (case syncThrottle opts of Some n \<Rightarrow> n | None \<Rightarrow> 5000)"

definition opt_prettify :: "JsonDbOptions \<Rightarrow> bool" where
  "opt_prettify opts = (case prettify opts of Some b \<Rightarrow> b | None \<Rightarrow> True)"

definition opt_initialData :: "JsonDbOptions \<Rightarrow> json" where
  "opt_initialData opts = (case initialData opts of Some d \<Rightarrow> d | None \<Rightarrow> JObj [])"

definition opt_throwIfNotExists :: "JsonDbOptions \<Rightarrow> bool" where
  "opt_throwIfNotExists opts = (case throwIfNotExists opts of Some b \<Rightarrow> b | None \<Rightarrow> False)"

definition no_options :: JsonDbOptions where
  "no_options = \<lparr>syncThrottle = None, prettify = None, initialData = None,
     throwIfNotExists = None, beforeSync = None, afterLoad = None\<rparr>"

record JsonDbMetadata =
  createTime :: int
  lastUpdate :: int
  lastSync :: int

text \<open>The object \<open>{ meta, data }\<close> that \<open>sync\<close> serialises, as it reads back.\<close>

definition stored_data :: "JsonDbMetadata \<Rightarrow> json \<Rightarrow> json" where
  "stored_data m d =
     stringify_parse (JObj
       [(''meta'', JObj [(''createTime'', JNum (createTime m)),
                         (''lastSync'', JNum (lastSync m)),
                         (''lastUpdate'', JNum (lastUpdate m))]),
        (''data'', d)])"

text \<open>
  \<open>isValidData\<close>: \<open>None\<close> is the \<open>TypeError\<close> of reading a property of a \<open>meta\<close> that is
  \<open>undefined\<close> or \<open>null\<close>; the conjunction stops at its first false operand.
\<close>

definition isValidData :: "json \<Rightarrow> bool option" where
  "isValidData raw =
     (if falsy raw then Some False
      else case member_of raw ''meta'' of
        None \<Rightarrow> None
      | Some m \<Rightarrow>
         (case member_of m ''createTime'' of
            None \<Rightarrow> None
          | Some c \<Rightarrow>
             if \<not> is_number c then Some False
             else (case member_of m ''lastSync'' of
                None \<Rightarrow> None
              | Some l \<Rightarrow>
                 if \<not> is_number l then Some False
                 else (case member_of m ''lastUpdate'' of
                    None \<Rightarrow> None
                  | Some u \<Rightarrow> Some (is_number u)))))"

text \<open>The three timestamps of a \<open>meta\<close> object, when all three are numbers.\<close>

definition metadata_of :: "json \<Rightarrow> JsonDbMetadata option" where
  "metadata_of m =
     (case (Option.bind (member_of m ''createTime'') num_of,
            Option.bind (member_of m ''lastUpdate'') num_of,
            Option.bind (member_of m ''lastSync'') num_of) of
        (Some c, Some u, Some l) \<Rightarrow> Some \<lparr>createTime = c, lastUpdate = u, lastSync = l\<rparr>
      | _ \<Rightarrow> None)"


section \<open>The file\<close>

text \<open>
  What is at \<open>path\<close>: the parent folder is missing (and \<open>mkdirp\<close> can create it or not),
  the folder is there without the file, the file cannot be read, its text is not JSON,
  or its text parses to a value.
\<close>

datatype file_contents =
    NoFolder bool
  | NoFile
  | Unreadable
  | NotJson
  | Json json

fun existsSync_path :: "file_contents \<Rightarrow> bool" where
  "existsSync_path (NoFolder c) = False"
| "existsSync_path NoFile = False"
| "existsSync_path f = True"

datatype init_error = FileDoesNotExist | MkdirpFailed

text \<open>
  \<open>read\<close>: \<open>Inl\<close> is a thrown error, \<open>Inr None\<close> the result \<open>undefined\<close>. Every failure
  inside the \<open>try\<close> block (reading, parsing, the \<open>TypeError\<close> of \<open>isValidData\<close>) ends in
  the empty \<open>catch\<close> and so in \<open>undefined\<close>. The second component is the file afterwards.
\<close>

definition read :: "JsonDbOptions \<Rightarrow> file_contents \<Rightarrow>
    (init_error + (json \<times> JsonDbMetadata) option) \<times> file_contents" where
  "read opts f =
     (if opt_throwIfNotExists opts \<and> \<not> existsSync_path f then (Inl FileDoesNotExist, f)
      else case f of
        NoFolder creatable \<Rightarrow> if creatable then (Inr None, NoFile) else (Inl MkdirpFailed, f)
      | NoFile \<Rightarrow> (Inr None, f)
      | Unreadable \<Rightarrow> (Inr None, f)
      | NotJson \<Rightarrow> (Inr None, f)
      | Json raw \<Rightarrow>
         (case isValidData raw of
            Some True \<Rightarrow>
              (case (member_of raw ''data'', Option.bind (member_of raw ''meta'') metadata_of) of
                 (Some d, Some m) \<Rightarrow>
                   (Inr (Some (case afterLoad opts of Some h \<Rightarrow> h d | None \<Rightarrow> d, m)), f)
               | _ \<Rightarrow> (Inr None, f))
          | _ \<Rightarrow> (Inr None, f)))"


section \<open>The store and its environment\<close>

text \<open>
  A promise is a cell of a table; its index is its handle. \<open>Ticket\<close> promises are the
  ones \<open>getSchedule\<close> creates, \<open>Invocation\<close> promises the ones an invocation of the
  \<open>async\<close> function \<open>store\<close> returns when it runs the write itself.
\<close>

datatype io_error = IoError string

datatype promise_state = Pending | Fulfilled | Rejected io_error

datatype promise_kind = Ticket | Invocation

record ScheduledSync =
  timer :: "nat option"
  doItNow :: "bool option"
  promise :: nat

text \<open>
  One invocation of \<open>store\<close> suspended at \<open>await this.sync()\<close>: its local \<open>scheduled\<close>,
  the promise it returned, the text handed to \<open>writeFile\<close> and the time it started.
\<close>

record write_op =
  ticket :: "ScheduledSync option"
  own :: nat
  content :: json
  started :: int

record write_entry =
  w_started :: int
  w_urgent :: bool
  w_content :: json

text \<open>
  The fields of the class (\<open>meta\<close>, \<open>options\<close>, \<open>payload\<close>, \<open>writing\<close>, \<open>scheduled\<close>,
  \<open>isInitDone\<close>), and the environment it runs in: the clock \<open>Date.now()\<close>, the promise
  table, the armed timers with the time they are due, the suspended writes, the file,
  and two histories: the writes started and the times at which writes ended.
\<close>

record jsondb =
  meta :: JsonDbMetadata
  options :: JsonDbOptions
  payload :: json
  writing :: bool
  scheduled :: "ScheduledSync option"
  isInitDone :: "init_error option"
  now :: int
  promises :: "(promise_kind \<times> promise_state) list"
  timers :: "(nat \<times> int) list"
  next_timer :: nat
  inflight :: "write_op list"
  disk :: file_contents
  write_log :: "write_entry list"
  done_log :: "(int \<times> io_error option) list"

text \<open>
  The constructor at time \<open>t\<close> over the file \<open>f\<close>, with the continuation of \<open>read()\<close>
  run: the state once \<open>isInitDone\<close> is settled (\<open>Some e\<close>: rejected with \<open>e\<close>).
\<close>

definition JsonDb_new :: "JsonDbOptions \<Rightarrow> int \<Rightarrow> file_contents \<Rightarrow> jsondb" where
  "JsonDb_new opts t f =
     (let s = \<lparr>meta = \<lparr>createTime = t, lastUpdate = 0, lastSync = 0\<rparr>,
               options = opts, payload = JObj [], writing = False, scheduled = None,
               isInitDone = None, now = t, promises = [], timers = [], next_timer = 0,
               inflight = [], disk = f, write_log = [], done_log = []\<rparr>
      in case read opts f of
           (Inl e, f') \<Rightarrow> s\<lparr>isInitDone := Some e, disk := f'\<rparr>
         | (Inr None, f') \<Rightarrow>
             s\<lparr>payload := (case initialData opts of Some d \<Rightarrow> d | None \<Rightarrow> payload s),
               disk := f'\<rparr>
         | (Inr (Some (d, m)), f') \<Rightarrow>
             s\<lparr>meta := \<lparr>createTime = createTime m, lastUpdate = lastUpdate m,
                         lastSync = lastSync m\<rparr>,
               payload := d, disk := f'\<rparr>)"

definition isReady :: "jsondb \<Rightarrow> init_error option" where
  "isReady s = isInitDone s"

definition getData :: "jsondb \<Rightarrow> json" where
  "getData s = payload s"


section \<open>The write scheduler\<close>

definition truthy :: "bool option \<Rightarrow> bool" where
  "truthy d = (d = Some True)"

definition new_promise :: "promise_kind \<Rightarrow> jsondb \<Rightarrow> nat \<times> jsondb" where
  "new_promise k s = (length (promises s), s\<lparr>promises := promises s @ [(k, Pending)]\<rparr>)"

text \<open>\<open>resolve\<close> and \<open>reject\<close>: a promise settles once.\<close>

definition settle :: "nat \<Rightarrow> promise_state \<Rightarrow> jsondb \<Rightarrow> jsondb" where
  "settle p st s =
     (if p < length (promises s) \<and> snd (promises s ! p) = Pending
      then s\<lparr>promises := (promises s)[p := (fst (promises s ! p), st)]\<rparr> else s)"

definition getSchedule :: "bool option \<Rightarrow> jsondb \<Rightarrow> ScheduledSync \<times> jsondb" where
  "getSchedule d s =
     (let (p, s') = new_promise Ticket s
      in (\<lparr>timer = None, doItNow = d, promise = p\<rparr>, s'))"

text \<open>\<open>setTimeout\<close>: a delay below one millisecond counts as one.\<close>

definition setTimeout :: "int \<Rightarrow> jsondb \<Rightarrow> nat \<times> jsondb" where
  "setTimeout ms s =
     (next_timer s,
      s\<lparr>timers := timers s @ [(next_timer s, now s + max 1 ms)],
        next_timer := Suc (next_timer s)\<rparr>)"

definition clearTimeout :: "nat option \<Rightarrow> jsondb \<Rightarrow> jsondb" where
  "clearTimeout h s =
     (case h of None \<Rightarrow> s
      | Some t \<Rightarrow> s\<lparr>timers := filter (\<lambda>e. fst e \<noteq> t) (timers s)\<rparr>)"

text \<open>
  \<open>sync\<close> up to its \<open>await writeFile\<close>: \<open>lastSync\<close> is set first, then the text is
  built from the metadata and the payload of that moment.
\<close>

definition sync_begin :: "jsondb \<Rightarrow> json \<times> jsondb" where
  "sync_begin s =
     (let s1 = s\<lparr>meta := (meta s)\<lparr>lastSync := now s\<rparr>\<rparr>;
          d = (case beforeSync (options s1) of Some h \<Rightarrow> h (payload s1) | None \<Rightarrow> payload s1)
      in (stored_data (meta s1) d, s1))"

text \<open>Lines 247 to 262 of \<open>store\<close>: a call while a write is in flight.\<close>

definition coalesce :: "bool option \<Rightarrow> jsondb \<Rightarrow> nat \<times> jsondb" where
  "coalesce d s =
     (case scheduled s of
        Some sch \<Rightarrow>
          (promise sch,
           s\<lparr>scheduled := Some (sch\<lparr>doItNow := (if truthy (doItNow sch) then doItNow sch else d)\<rparr>)\<rparr>)
      | None \<Rightarrow>
          (let (sch, s1) = getSchedule d s
           in (promise sch, s1\<lparr>scheduled := Some sch\<rparr>)))"

text \<open>Lines 279 to 281: a new ticket with its timer.\<close>

definition arm :: "bool option \<Rightarrow> int \<Rightarrow> jsondb \<Rightarrow> nat \<times> jsondb" where
  "arm d waitTime s =
     (let (sch, s1) = getSchedule d s;
          (h, s2) = setTimeout waitTime s1
      in (promise sch, s2\<lparr>scheduled := Some (sch\<lparr>timer := Some h\<rparr>)\<rparr>))"

text \<open>
  Lines 290 to 298: the ticket is detached, its timer cleared, \<open>writing\<close> set, and
  \<open>sync\<close> run up to \<open>writeFile\<close>. The invocation stays suspended in \<open>inflight\<close>.
\<close>

definition begin_write :: "bool option \<Rightarrow> jsondb \<Rightarrow> nat \<times> jsondb" where
  "begin_write d s =
     (let (p, s0) = new_promise Invocation s;
          sch = scheduled s0;
          s1 = s0\<lparr>scheduled := None\<rparr>;
          s2 = clearTimeout (case sch of None \<Rightarrow> None | Some t \<Rightarrow> timer t) s1;
          s3 = s2\<lparr>writing := True\<rparr>;
          (c, s4) = sync_begin s3
      in (p, s4\<lparr>inflight := inflight s4 @ [\<lparr>ticket = sch, own = p, content = c, started = now s4\<rparr>],
               write_log := write_log s4 @ [\<lparr>w_started = now s4, w_urgent = truthy d, w_content = c\<rparr>]\<rparr>))"

text \<open>
  \<open>store(doItNow)\<close> up to its first suspension. The result is the handle of the promise
  the caller gets: the ticket's where the source returns \<open>scheduled.promise\<close>, the
  invocation's own where it runs the write.
\<close>

definition store :: "bool option \<Rightarrow> jsondb \<Rightarrow> nat \<times> jsondb" where
  "store d s =
     (if writing s then coalesce d s
      else case (scheduled s, truthy d) of
        (Some sch, False) \<Rightarrow> (promise sch, s)
      | _ \<Rightarrow>
         (let waitTime = (if truthy d then 0
                          else lastSync (meta s) + opt_syncThrottle (options s) - now s)
          in if waitTime > 0 then arm d waitTime s else begin_write d s))"

text \<open>
  The rest of \<open>store\<close>, run when \<open>writeFile\<close> of the oldest suspended write \<open>w\<close> ends
  with \<open>res\<close> (\<open>None\<close>: written). Lines 299 to 305: the ticket of that write is resolved
  or rejected (the \<open>catch\<close> block takes the error) and \<open>writing\<close> is reset.
\<close>

definition end_write :: "write_op \<Rightarrow> write_op list \<Rightarrow> io_error option \<Rightarrow> jsondb \<Rightarrow> jsondb" where
  "end_write w ws res s =
     (let s1 = s\<lparr>inflight := ws, done_log := done_log s @ [(now s, res)],
                 disk := (case res of None \<Rightarrow> Json (content w) | Some e \<Rightarrow> disk s)\<rparr>;
          s2 = (case ticket w of
                  None \<Rightarrow> s1
                | Some sch \<Rightarrow>
                    settle (promise sch)
                      (case res of None \<Rightarrow> Fulfilled | Some e \<Rightarrow> Rejected e) s1)
      in s2\<lparr>writing := False\<rparr>)"

text \<open>
  Lines 309 to 320: a ticket created while the write was in flight is run at once when
  it is urgent, and is given a timer otherwise.
\<close>

definition reschedule :: "jsondb \<Rightarrow> jsondb" where
  "reschedule s =
     (case scheduled s of
        None \<Rightarrow> s
      | Some ns \<Rightarrow>
          if truthy (doItNow ns) then snd (store (Some True) s)
          else if timer ns = None then
            (let (h, s') = setTimeout
                   (lastSync (meta s) + opt_syncThrottle (options s) - now s) s
             in s'\<lparr>scheduled := Some (ns\<lparr>timer := Some h\<rparr>)\<rparr>)
          else s)"

text \<open>
  The end of a write: the two parts above, then the invocation returns and its own
  promise is fulfilled, whatever \<open>res\<close> was.
\<close>

definition write_finished :: "io_error option \<Rightarrow> jsondb \<Rightarrow> jsondb" where
  "write_finished res s =
     (case inflight s of
        [] \<Rightarrow> s
      | w # ws \<Rightarrow> settle (own w) Fulfilled (reschedule (end_write w ws res s)))"

text \<open>\<open>update\<close> and \<open>flush\<close>. \<open>flush\<close> awaits the promise of \<open>store(true)\<close>.\<close>

definition update :: "json \<Rightarrow> jsondb \<Rightarrow> jsondb" where
  "update u s =
     (let s1 = s\<lparr>payload := assignDeepWithDelete (payload s) u\<rparr>;
          s2 = s1\<lparr>meta := (meta s1)\<lparr>lastUpdate := now s1\<rparr>\<rparr>
      in snd (store None s2))"

definition flush :: "jsondb \<Rightarrow> nat \<times> jsondb" where
  "flush s = store (Some True) s"

text \<open>
  A timer that is armed and due calls \<open>this.store\<close> without an argument.
\<close>

definition timer_fires :: "nat \<Rightarrow> jsondb \<Rightarrow> jsondb" where
  "timer_fires h s =
     (case map_of (timers s) h of
        None \<Rightarrow> s
      | Some due \<Rightarrow>
          if due \<le> now s
          then snd (store None (s\<lparr>timers := filter (\<lambda>e. fst e \<noteq> h) (timers s)\<rparr>))
          else s)"

text \<open>
  What can happen to a store: a call of a client, a timer, the end of a write, and
  time passing. Between two events nothing runs.
\<close>

datatype event =
    Update json
  | Flush
  | TimerFires nat
  | WriteFinished "io_error option"
  | Tick nat

fun step :: "event \<Rightarrow> jsondb \<Rightarrow> jsondb" where
  "step (Update u) s = update u s"
| "step Flush s = snd (flush s)"
| "step (TimerFires h) s = timer_fires h s"
| "step (WriteFinished res) s = write_finished res s"
| "step (Tick n) s = s\<lparr>now := now s + int n\<rparr>"

fun run :: "event list \<Rightarrow> jsondb \<Rightarrow> jsondb" where
  "run [] s = s"
| "run (e # es) s = run es (step e s)"


section \<open>What the scheduler keeps true\<close>

text \<open>The handles of the ticket promises that are still pending.\<close>

definition pending_tickets :: "jsondb \<Rightarrow> nat list" where
  "pending_tickets s =
     filter (\<lambda>p. promises s ! p = (Ticket, Pending)) [0..<length (promises s)]"

definition ticket_handle :: "ScheduledSync option \<Rightarrow> nat list" where
  "ticket_handle t = (case t of None \<Rightarrow> [] | Some sch \<Rightarrow> [promise sch])"

text \<open>
  The tickets the store holds: the one in \<open>scheduled\<close> and the one detached by the
  write in flight.
\<close>

definition held_tickets :: "jsondb \<Rightarrow> nat list" where
  "held_tickets s =
     ticket_handle (scheduled s) @ concat (map (\<lambda>w. ticket_handle (ticket w)) (inflight s))"

text \<open>At most one write is in flight, and \<open>writing\<close> says whether one is.\<close>

definition one_write :: "jsondb \<Rightarrow> bool" where
  "one_write s \<longleftrightarrow> length (inflight s) \<le> 1 \<and> (writing s \<longleftrightarrow> inflight s \<noteq> [])"

text \<open>
  Every pending ticket is held: it is the one in \<open>scheduled\<close> or the one detached by
  the write in flight.
\<close>

definition tickets_held :: "jsondb \<Rightarrow> bool" where
  "tickets_held s \<longleftrightarrow> set (pending_tickets s) \<subseteq> set (held_tickets s)"

definition at_most_one :: "jsondb \<Rightarrow> bool" where
  "at_most_one s \<longleftrightarrow> one_write s \<and> tickets_held s"

text \<open>
  No timer is armed while a write is in flight, and an armed timer is the one of the
  ticket in \<open>scheduled\<close>.
\<close>

definition timers_inv :: "jsondb \<Rightarrow> bool" where
  "timers_inv s \<longleftrightarrow>
     (writing s \<longrightarrow> timers s = []) \<and>
     (\<forall>e \<in> set (timers s).
        case scheduled s of None \<Rightarrow> False | Some t \<Rightarrow> timer t = Some (fst e))"

text \<open>
  A history of writes in which every write that was not urgent started at least \<open>thr\<close>
  after the start of the write before it.
\<close>

fun spaced :: "int \<Rightarrow> write_entry list \<Rightarrow> bool" where
  "spaced thr (a # b # es) =
     ((\<not> w_urgent b \<longrightarrow> w_started a + thr \<le> w_started b) \<and> spaced thr (b # es))"
| "spaced thr es = True"

text \<open>
  The history is spaced by the throttle, \<open>lastSync\<close> is the start of the last write,
  and a write in flight is the last of the history.
\<close>

definition log_inv :: "jsondb \<Rightarrow> bool" where
  "log_inv s \<longleftrightarrow>
     spaced (opt_syncThrottle (options s)) (write_log s) \<and>
     (write_log s \<noteq> [] \<longrightarrow> lastSync (meta s) = w_started (last (write_log s))) \<and>
     (\<forall>w \<in> set (inflight s).
        write_log s \<noteq> [] \<and> started w = w_started (last (write_log s)))"

definition sched_inv :: "jsondb \<Rightarrow> bool" where
  "sched_inv s \<longleftrightarrow> one_write s \<and> timers_inv s"

text \<open>The events that are calls of a client, and the events that end a write.\<close>

fun is_call :: "event \<Rightarrow> bool" where
  "is_call (Update u) = True"
| "is_call Flush = True"
| "is_call e = False"

fun is_completion :: "event \<Rightarrow> bool" where
  "is_completion (WriteFinished res) = True"
| "is_completion e = False"

text \<open>
  The writes the store still owes when no client calls any more: one when the ticket in
  \<open>scheduled\<close> is urgent.
\<close>

definition owed :: "jsondb \<Rightarrow> nat" where
  "owed s = (case scheduled s of None \<Rightarrow> 0 | Some t \<Rightarrow> if truthy (doItNow t) then 1 else 0)"

text \<open>
  How a state \<open>s'\<close> reached during the write in flight in \<open>s\<close> relates to \<open>s\<close>: the same
  write is in flight, none was started, and the calls made since share one ticket,
  the one \<open>s\<close> held or a single new one.
\<close>

definition coalesced :: "jsondb \<Rightarrow> jsondb \<Rightarrow> bool" where
  "coalesced s s' \<longleftrightarrow>
     writing s' \<and> inflight s' = inflight s \<and> write_log s' = write_log s \<and>
     (case scheduled s of
        Some t \<Rightarrow> promises s' = promises s \<and> ticket_handle (scheduled s') = [promise t]
      | None \<Rightarrow> scheduled s' = None \<and> promises s' = promises s \<or>
                ticket_handle (scheduled s') = [length (promises s)] \<and>
                promises s' = promises s @ [(Ticket, Pending)]) \<and>
     (owed s = 1 \<longrightarrow> owed s' = 1)"


section \<open>Loading\<close>

lemma isValidData_shape:
  "isValidData raw = Some True \<longleftrightarrow>
     (\<exists>fs ms c l u. raw = JObj fs \<and> map_of fs ''meta'' = Some (JObj ms) \<and>
        map_of ms ''createTime'' = Some (JNum c) \<and> map_of ms ''lastSync'' = Some (JNum l) \<and>
        map_of ms ''lastUpdate'' = Some (JNum u))"
proof (cases raw)
  case (JObj fs)
  show ?thesis
  proof (cases "map_of fs ''meta''")
    case None
    with JObj show ?thesis by (simp add: isValidData_def)
  next
    case (Some m)
    show ?thesis
    proof (cases m)
      case (JObj ms)
      have n: "\<And>v. is_number v \<longleftrightarrow> (\<exists>n. v = JNum n)"
        by (case_tac v) simp_all
      from \<open>raw = JObj fs\<close> Some JObj show ?thesis
        by (auto simp add: isValidData_def n split: option.splits)
    qed (use \<open>raw = JObj fs\<close> Some in \<open>simp_all add: isValidData_def\<close>)
  qed
qed (simp_all add: isValidData_def)

lemma read_corrupt:
  assumes "f = Unreadable \<or> f = NotJson \<or> (\<exists>raw. f = Json raw \<and> isValidData raw \<noteq> Some True)"
  shows "read opts f = (Inr None, f)"
  using assms
  by (auto simp add: read_def split: option.splits bool.splits)

lemma read_valid:
  assumes "map_of fs ''meta'' = Some (JObj ms)"
    and "map_of ms ''createTime'' = Some (JNum c)"
    and "map_of ms ''lastUpdate'' = Some (JNum u)"
    and "map_of ms ''lastSync'' = Some (JNum l)"
  shows "read opts (Json (JObj fs)) =
     (Inr (Some (case afterLoad opts of
                   Some h \<Rightarrow> h (case map_of fs ''data'' of Some v \<Rightarrow> v | None \<Rightarrow> JUndefined)
                 | None \<Rightarrow> (case map_of fs ''data'' of Some v \<Rightarrow> v | None \<Rightarrow> JUndefined),
                 \<lparr>createTime = c, lastUpdate = u, lastSync = l\<rparr>)),
      Json (JObj fs))"
proof -
  have "isValidData (JObj fs) = Some True"
    using assms by (simp add: isValidData_def)
  moreover have "metadata_of (JObj ms) = Some \<lparr>createTime = c, lastUpdate = u, lastSync = l\<rparr>"
    using assms by (simp add: metadata_of_def)
  ultimately show ?thesis
    using assms(1) by (simp add: read_def)
qed

subsection \<open>\<open>createTime\<close> is never written after construction\<close>

lemma createTime_store: "createTime (meta (snd (store d s))) = createTime (meta s)"
  by (simp add: store_def coalesce_def arm_def begin_write_def getSchedule_def new_promise_def
      setTimeout_def clearTimeout_def sync_begin_def Let_def
      split: option.splits prod.splits bool.splits)

lemma createTime_settle: "createTime (meta (settle p st s)) = createTime (meta s)"
  by (simp add: settle_def)

lemma createTime_write_finished: "createTime (meta (write_finished r s)) = createTime (meta s)"
  by (simp add: write_finished_def end_write_def reschedule_def createTime_store
      createTime_settle setTimeout_def Let_def split: list.splits option.splits prod.splits)

lemma createTime_step: "createTime (meta (step e s)) = createTime (meta s)"
  by (cases e) (simp_all add: update_def flush_def timer_fires_def createTime_store
      createTime_write_finished Let_def split: option.splits)

lemma createTime_run: "createTime (meta (run es s)) = createTime (meta s)"
  by (induction es arbitrary: s) (simp_all add: createTime_step)

text \<open>
  C8. A stored record whose \<open>meta\<close> holds the three numeric timestamps loads: once
  \<open>isInitDone\<close> is resolved, \<open>getData()\<close> is the stored \<open>data\<close> (passed through the
  \<open>afterLoad\<close> hook when one is given) and the metadata are the stored ones, so
  \<open>meta.createTime\<close> is the stored \<open>createTime\<close>. Whatever happens afterwards (updates,
  flushes, timers, writes ending well or badly, time passing), \<open>createTime\<close> keeps the
  value the constructor left: the stored one after a load, the construction time \<open>t'\<close>
  when there was no file.
\<close>

theorem load_valid_record_createTime_permanent:
  assumes "map_of fs ''meta'' = Some (JObj ms)"
    and "map_of ms ''createTime'' = Some (JNum c)"
    and "map_of ms ''lastUpdate'' = Some (JNum u)"
    and "map_of ms ''lastSync'' = Some (JNum l)"
  shows "isReady (JsonDb_new opts t (Json (JObj fs))) = None \<and>
         getData (JsonDb_new opts t (Json (JObj fs))) =
           (case afterLoad opts of
              Some h \<Rightarrow> h (case map_of fs ''data'' of Some v \<Rightarrow> v | None \<Rightarrow> JUndefined)
            | None \<Rightarrow> (case map_of fs ''data'' of Some v \<Rightarrow> v | None \<Rightarrow> JUndefined)) \<and>
         meta (JsonDb_new opts t (Json (JObj fs))) =
           \<lparr>createTime = c, lastUpdate = u, lastSync = l\<rparr> \<and>
         createTime (meta (run es (JsonDb_new opts t (Json (JObj fs))))) = c \<and>
         createTime (meta (run es' (JsonDb_new opts' t' NoFile))) = t' \<and>
         createTime (meta (run es' s)) = createTime (meta s)"
proof -
  have new: "JsonDb_new opts t (Json (JObj fs)) =
      \<lparr>meta = \<lparr>createTime = c, lastUpdate = u, lastSync = l\<rparr>, options = opts,
       payload = (case afterLoad opts of
              Some h \<Rightarrow> h (case map_of fs ''data'' of Some v \<Rightarrow> v | None \<Rightarrow> JUndefined)
            | None \<Rightarrow> (case map_of fs ''data'' of Some v \<Rightarrow> v | None \<Rightarrow> JUndefined)),
       writing = False, scheduled = None, isInitDone = None, now = t, promises = [],
       timers = [], next_timer = 0, inflight = [], disk = Json (JObj fs), write_log = [],
       done_log = []\<rparr>"
    by (simp add: JsonDb_new_def read_valid [OF assms])
  have fresh: "createTime (meta (JsonDb_new opts' t' NoFile)) = t'"
    by (simp add: JsonDb_new_def read_def split: option.splits)
  show ?thesis
    by (simp add: createTime_run fresh) (simp add: new isReady_def getData_def)
qed

theorem load_valid_record_createTime_permanent_witness:
  "getData (JsonDb_new no_options 1000
      (Json (JObj [(''meta'', JObj [(''createTime'', JNum 1), (''lastUpdate'', JNum 1),
                                    (''lastSync'', JNum 1)]),
                   (''data'', JObj [(''x'', JNum 5)])]))) = JObj [(''x'', JNum 5)] \<and>
   createTime (meta (run [Update (JObj [(''x'', JNum 6)]), Flush, WriteFinished None]
     (JsonDb_new no_options 1000
      (Json (JObj [(''meta'', JObj [(''createTime'', JNum 1), (''lastUpdate'', JNum 1),
                                    (''lastSync'', JNum 1)]),
                   (''data'', JObj [(''x'', JNum 5)])]))))) = 1"
  using load_valid_record_createTime_permanent
    [of "[(''meta'', JObj [(''createTime'', JNum 1), (''lastUpdate'', JNum 1),
                           (''lastSync'', JNum 1)]),
          (''data'', JObj [(''x'', JNum 5)])]"
        "[(''createTime'', JNum 1), (''lastUpdate'', JNum 1), (''lastSync'', JNum 1)]"
        1 1 1 no_options 1000
        "[Update (JObj [(''x'', JNum 6)]), Flush, WriteFinished None]"]
  by (simp add: no_options_def)

text \<open>
  C6. A file that is there but cannot be read, is not JSON, or parses to a value that
  \<open>isValidData\<close> does not accept (it answers \<open>false\<close> or raises the \<open>TypeError\<close> that
  \<open>read\<close> catches) makes \<open>read\<close> return \<open>undefined\<close> without an error: \<open>isInitDone\<close>
  resolves, \<open>getData()\<close> is \<open>initialData\<close> (the empty document when none is given), and,
  unless \<open>throwIfNotExists\<close> is set, the store is the one built over a missing file,
  the file itself apart.
\<close>

theorem corrupt_file_loads_as_absent:
  assumes "f = Unreadable \<or> f = NotJson \<or> (\<exists>raw. f = Json raw \<and> isValidData raw \<noteq> Some True)"
  shows "fst (read opts f) = Inr None \<and>
         isReady (JsonDb_new opts t f) = None \<and>
         getData (JsonDb_new opts t f) = opt_initialData opts \<and>
         (\<not> opt_throwIfNotExists opts \<longrightarrow>
            JsonDb_new opts t f = (JsonDb_new opts t NoFile)\<lparr>disk := f\<rparr>)"
proof -
  have absent: "\<not> opt_throwIfNotExists opts \<Longrightarrow> read opts NoFile = (Inr None, NoFile)"
    by (simp add: read_def)
  show ?thesis
    by (auto simp add: read_corrupt [OF assms] absent JsonDb_new_def isReady_def getData_def
        opt_initialData_def split: option.splits)
qed

theorem corrupt_file_loads_as_absent_witness:
  "isValidData (JObj [(''notMeta'', JBool True)]) \<noteq> Some True \<and>
   \<not> opt_throwIfNotExists (no_options\<lparr>initialData := Some (JObj [(''k'', JNum 7)])\<rparr>) \<and>
   isReady (JsonDb_new (no_options\<lparr>initialData := Some (JObj [(''k'', JNum 7)])\<rparr>) 1000
      (Json (JObj [(''notMeta'', JBool True)]))) = None \<and>
   getData (JsonDb_new (no_options\<lparr>initialData := Some (JObj [(''k'', JNum 7)])\<rparr>) 1000
      (Json (JObj [(''notMeta'', JBool True)]))) = JObj [(''k'', JNum 7)] \<and>
   JsonDb_new (no_options\<lparr>initialData := Some (JObj [(''k'', JNum 7)])\<rparr>) 1000
      (Json (JObj [(''notMeta'', JBool True)])) =
   (JsonDb_new (no_options\<lparr>initialData := Some (JObj [(''k'', JNum 7)])\<rparr>) 1000 NoFile)
      \<lparr>disk := Json (JObj [(''notMeta'', JBool True)])\<rparr>"
  using corrupt_file_loads_as_absent
    [of "Json (JObj [(''notMeta'', JBool True)])"
        "no_options\<lparr>initialData := Some (JObj [(''k'', JNum 7)])\<rparr>" 1000]
  by (simp add: isValidData_def no_options_def opt_initialData_def opt_throwIfNotExists_def
      JsonDb_new_def read_def isReady_def getData_def)


section \<open>Merging an update\<close>

lemma assign_field_other: "k \<noteq> k' \<Longrightarrow> map_of (assign_field d k' v) k = map_of d k"
  by (cases v) (simp_all add: update_conv' delete_conv')

lemma assign_fields_absent:
  "k \<notin> fst ` set us \<Longrightarrow> map_of (assign_fields d us) k = map_of d k"
proof (induction us arbitrary: d)
  case Nil
  show ?case by simp
next
  case (Cons kv us)
  obtain k' v where kv: "kv = (k', v)" by (cases kv)
  with Cons.prems have "k \<noteq> k'" and "k \<notin> fst ` set us" by auto
  with Cons.IH [of "assign_field d k' v"] kv show ?case
    by (simp add: assign_field_other)
qed

lemma assign_field_same:
  "map_of (assign_field d k v) k =
     (case v of
        JNull \<Rightarrow> None
      | JObj u \<Rightarrow> Some (JObj (assign_fields (case map_of d k of Some (JObj d') \<Rightarrow> d' | _ \<Rightarrow> []) u))
      | _ \<Rightarrow> Some v)"
  by (cases v) (simp_all add: update_conv' delete_conv')

lemma assign_fields_present:
  "distinct (map fst us) \<Longrightarrow> map_of us k = Some v \<Longrightarrow>
     map_of (assign_fields d us) k = map_of (assign_field d k v) k"
proof (induction us arbitrary: d)
  case Nil
  then show ?case by simp
next
  case (Cons kv us)
  obtain k' v' where kv: "kv = (k', v')" by (cases kv)
  show ?case
  proof (cases "k' = k")
    case True
    with Cons.prems kv have "v' = v" and "k \<notin> fst ` set us" by auto
    with kv True show ?thesis by (simp add: assign_fields_absent)
  next
    case False
    with Cons.prems kv have d: "distinct (map fst us)" and m: "map_of us k = Some v" by auto
    have "map_of (assign_field d k' v') k = map_of d k"
      using False by (simp add: assign_field_other)
    then have "map_of (assign_field (assign_field d k' v') k v) k = map_of (assign_field d k v) k"
      by (cases v) (simp_all add: update_conv' delete_conv')
    with Cons.IH [OF d m, of "assign_field d k' v'"] kv show ?thesis by simp
  qed
qed








lemma payload_store: "payload (snd (store d s)) = payload s"
  by (simp add: store_def coalesce_def arm_def begin_write_def getSchedule_def new_promise_def
      setTimeout_def clearTimeout_def sync_begin_def Let_def
      split: option.splits prod.splits bool.splits)

lemma getData_update: "getData (update u s) = assignDeepWithDelete (payload s) u"
  by (simp add: getData_def update_def payload_store Let_def)

text \<open>
  C5. \<open>update(U)\<close> on a document \<open>D\<close> leaves \<open>getData()\<close> at the merge of \<open>U\<close> into \<open>D\<close>.
  In it a field that \<open>U\<close> does not mention is as it was in \<open>D\<close>; a field that \<open>U\<close> sets to
  the delete sentinel is absent; a field that is a mapping in \<open>U\<close> and in \<open>D\<close> is the
  merge of the two mappings, in which the fields of the old mapping that the update
  does not mention are kept. The keys of \<open>U\<close> are distinct, as those of an object are.
\<close>

theorem update_merge_correct:
  assumes "payload s = JObj D"
  shows "getData (update (JObj U) s) = JObj (assign_fields D U) \<and>
         (k \<notin> fst ` set U \<longrightarrow> map_of (assign_fields D U) k = map_of D k) \<and>
         (distinct (map fst U) \<and> map_of U k = Some JNull \<longrightarrow>
            map_of (assign_fields D U) k = None) \<and>
         (distinct (map fst U) \<and> map_of U k = Some (JObj u) \<and> map_of D k = Some (JObj d) \<longrightarrow>
            map_of (assign_fields D U) k = Some (JObj (assign_fields d u)) \<and>
            (k' \<notin> fst ` set u \<longrightarrow> map_of (assign_fields d u) k' = map_of d k'))"
  using assms
  by (simp add: getData_update assign_fields_absent assign_fields_present assign_field_same
      update_conv' delete_conv')

theorem update_merge_correct_witness:
  "getData (update (JObj [(''b'', JObj [(''c'', JNull), (''e'', JStr ''x'')]), (''z'', JNull)])
     (JsonDb_new (no_options\<lparr>initialData := Some (JObj
        [(''a'', JNum 1), (''b'', JObj [(''c'', JNum 2), (''d'', JNum 3)]), (''z'', JNum 9)])\<rparr>)
        1000 NoFile)) =
     JObj [(''a'', JNum 1), (''b'', JObj [(''d'', JNum 3), (''e'', JStr ''x'')])] \<and>
   map_of (assign_fields
        [(''a'', JNum 1), (''b'', JObj [(''c'', JNum 2), (''d'', JNum 3)]), (''z'', JNum 9)]
        [(''b'', JObj [(''c'', JNull), (''e'', JStr ''x'')]), (''z'', JNull)]) ''a'' =
     Some (JNum 1) \<and>
   map_of (assign_fields
        [(''a'', JNum 1), (''b'', JObj [(''c'', JNum 2), (''d'', JNum 3)]), (''z'', JNum 9)]
        [(''b'', JObj [(''c'', JNull), (''e'', JStr ''x'')]), (''z'', JNull)]) ''z'' = None \<and>
   map_of (assign_fields
        [(''a'', JNum 1), (''b'', JObj [(''c'', JNum 2), (''d'', JNum 3)]), (''z'', JNum 9)]
        [(''b'', JObj [(''c'', JNull), (''e'', JStr ''x'')]), (''z'', JNull)]) ''b'' =
     Some (JObj (assign_fields [(''c'', JNum 2), (''d'', JNum 3)]
                   [(''c'', JNull), (''e'', JStr ''x'')])) \<and>
   map_of (assign_fields [(''c'', JNum 2), (''d'', JNum 3)]
             [(''c'', JNull), (''e'', JStr ''x'')]) ''d'' = Some (JNum 3)"
  using update_merge_correct
    [of "JsonDb_new (no_options\<lparr>initialData := Some (JObj
           [(''a'', JNum 1), (''b'', JObj [(''c'', JNum 2), (''d'', JNum 3)]), (''z'', JNum 9)])\<rparr>)
           1000 NoFile"
        "[(''a'', JNum 1), (''b'', JObj [(''c'', JNum 2), (''d'', JNum 3)]), (''z'', JNum 9)]"
        "[(''b'', JObj [(''c'', JNull), (''e'', JStr ''x'')]), (''z'', JNull)]"
        "''a''"]
    update_merge_correct
    [of "JsonDb_new (no_options\<lparr>initialData := Some (JObj
           [(''a'', JNum 1), (''b'', JObj [(''c'', JNum 2), (''d'', JNum 3)]), (''z'', JNum 9)])\<rparr>)
           1000 NoFile"
        "[(''a'', JNum 1), (''b'', JObj [(''c'', JNum 2), (''d'', JNum 3)]), (''z'', JNum 9)]"
        "[(''b'', JObj [(''c'', JNull), (''e'', JStr ''x'')]), (''z'', JNull)]"
        "''z''"]
    update_merge_correct
    [of "JsonDb_new (no_options\<lparr>initialData := Some (JObj
           [(''a'', JNum 1), (''b'', JObj [(''c'', JNum 2), (''d'', JNum 3)]), (''z'', JNum 9)])\<rparr>)
           1000 NoFile"
        "[(''a'', JNum 1), (''b'', JObj [(''c'', JNum 2), (''d'', JNum 3)]), (''z'', JNum 9)]"
        "[(''b'', JObj [(''c'', JNull), (''e'', JStr ''x'')]), (''z'', JNull)]"
        "''b''" "[(''c'', JNull), (''e'', JStr ''x'')]" "[(''c'', JNum 2), (''d'', JNum 3)]" "''d''"]
  by (simp add: JsonDb_new_def read_def no_options_def opt_throwIfNotExists_def)





section \<open>The cases of \<open>store\<close>\<close>

lemmas store_defs = store_def coalesce_def arm_def begin_write_def getSchedule_def new_promise_def
      setTimeout_def clearTimeout_def sync_begin_def

lemma store_cases [case_names coalesce_old coalesce_new wait arm start]:
  obtains
    t where "writing s" and "scheduled s = Some t"
      and "store d s = (promise t,
             s\<lparr>scheduled := Some (t\<lparr>doItNow := (if truthy (doItNow t) then doItNow t else d)\<rparr>)\<rparr>)"
  | "writing s" and "scheduled s = None"
      and "store d s = (length (promises s),
             s\<lparr>promises := promises s @ [(Ticket, Pending)],
               scheduled := Some \<lparr>timer = None, doItNow = d, promise = length (promises s)\<rparr>\<rparr>)"
  | t where "\<not> writing s" and "scheduled s = Some t" and "\<not> truthy d"
      and "store d s = (promise t, s)"
  | "\<not> writing s" and "scheduled s = None" and "\<not> truthy d"
      and "now s < lastSync (meta s) + opt_syncThrottle (options s)"
      and "store d s = (length (promises s),
             s\<lparr>promises := promises s @ [(Ticket, Pending)],
               timers := timers s @
                 [(next_timer s,
                   now s + max 1 (lastSync (meta s) + opt_syncThrottle (options s) - now s))],
               next_timer := Suc (next_timer s),
               scheduled := Some \<lparr>timer = Some (next_timer s), doItNow = d,
                                   promise = length (promises s)\<rparr>\<rparr>)"
  | "\<not> writing s"
      and "truthy d \<or> scheduled s = None \<and> lastSync (meta s) + opt_syncThrottle (options s) \<le> now s"
      and "store d s = (length (promises s),
             s\<lparr>promises := promises s @ [(Invocation, Pending)],
               scheduled := None,
               timers := (case scheduled s of
                            None \<Rightarrow> timers s
                          | Some t \<Rightarrow> (case timer t of
                                None \<Rightarrow> timers s
                              | Some h \<Rightarrow> filter (\<lambda>e. fst e \<noteq> h) (timers s))),
               writing := True,
               meta := (meta s)\<lparr>lastSync := now s\<rparr>,
               inflight := inflight s @
                 [\<lparr>ticket = scheduled s, own = length (promises s),
                   content = stored_data ((meta s)\<lparr>lastSync := now s\<rparr>)
                     (case beforeSync (options s) of Some h \<Rightarrow> h (payload s) | None \<Rightarrow> payload s),
                   started = now s\<rparr>],
               write_log := write_log s @
                 [\<lparr>w_started = now s, w_urgent = truthy d,
                   w_content = stored_data ((meta s)\<lparr>lastSync := now s\<rparr>)
                     (case beforeSync (options s) of Some h \<Rightarrow> h (payload s) | None \<Rightarrow> payload s)\<rparr>]\<rparr>)"
proof (cases "writing s")
  case True
  show ?thesis
  proof (cases "scheduled s")
    case None
    with True have "store d s = (length (promises s),
             s\<lparr>promises := promises s @ [(Ticket, Pending)],
               scheduled := Some \<lparr>timer = None, doItNow = d, promise = length (promises s)\<rparr>\<rparr>)"
      by (simp add: store_defs)
    with True None show ?thesis by (rule that(2))
  next
    case (Some t)
    with True have "store d s = (promise t,
             s\<lparr>scheduled := Some (t\<lparr>doItNow := (if truthy (doItNow t) then doItNow t else d)\<rparr>)\<rparr>)"
      by (simp add: store_defs)
    with True Some show ?thesis by (rule that(1))
  qed
next
  case False
  show ?thesis
  proof (cases "truthy d \<or> scheduled s = None \<and> lastSync (meta s) + opt_syncThrottle (options s) \<le> now s")
    case True
    with False have "store d s = (length (promises s),
             s\<lparr>promises := promises s @ [(Invocation, Pending)],
               scheduled := None,
               timers := (case scheduled s of
                            None \<Rightarrow> timers s
                          | Some t \<Rightarrow> (case timer t of
                                None \<Rightarrow> timers s
                              | Some h \<Rightarrow> filter (\<lambda>e. fst e \<noteq> h) (timers s))),
               writing := True,
               meta := (meta s)\<lparr>lastSync := now s\<rparr>,
               inflight := inflight s @
                 [\<lparr>ticket = scheduled s, own = length (promises s),
                   content = stored_data ((meta s)\<lparr>lastSync := now s\<rparr>)
                     (case beforeSync (options s) of Some h \<Rightarrow> h (payload s) | None \<Rightarrow> payload s),
                   started = now s\<rparr>],
               write_log := write_log s @
                 [\<lparr>w_started = now s, w_urgent = truthy d,
                   w_content = stored_data ((meta s)\<lparr>lastSync := now s\<rparr>)
                     (case beforeSync (options s) of Some h \<Rightarrow> h (payload s) | None \<Rightarrow> payload s)\<rparr>]\<rparr>)"
      by (auto simp add: store_defs Let_def split: option.splits)
    with False True show ?thesis by (rule that(5))
  next
    case nb: False
    then have nt: "\<not> truthy d" by simp
    show ?thesis
    proof (cases "scheduled s")
      case None
      with nb have lt: "now s < lastSync (meta s) + opt_syncThrottle (options s)" by simp
      with False None nt have "store d s = (length (promises s),
             s\<lparr>promises := promises s @ [(Ticket, Pending)],
               timers := timers s @
                 [(next_timer s,
                   now s + max 1 (lastSync (meta s) + opt_syncThrottle (options s) - now s))],
               next_timer := Suc (next_timer s),
               scheduled := Some \<lparr>timer = Some (next_timer s), doItNow = d,
                                   promise = length (promises s)\<rparr>\<rparr>)"
        by (simp add: store_defs Let_def)
      with False None nt lt show ?thesis by (rule that(4))
    next
      case (Some t)
      with False nt have "store d s = (promise t, s)" by (simp add: store_defs)
      with False Some nt show ?thesis by (rule that(3))
    qed
  qed
qed


section \<open>One write at a time\<close>

lemma no_pairs_Nil: "(\<forall>a b. (a, b) \<notin> set xs) \<Longrightarrow> xs = []"
  by (cases xs) auto

lemma sched_inv_store: "sched_inv s \<Longrightarrow> sched_inv (snd (store d s))"
  by (auto simp add: sched_inv_def one_write_def timers_inv_def store_defs Let_def
      split: option.splits prod.splits bool.splits if_splits intro: no_pairs_Nil)

lemma sched_inv_settle [simp]: "sched_inv (settle p st s) = sched_inv s"
  by (simp add: sched_inv_def one_write_def timers_inv_def settle_def)

lemma sched_inv_end_write:
  "sched_inv s \<Longrightarrow> inflight s = w # ws \<Longrightarrow>
     sched_inv (end_write w ws r s) \<and> timers (end_write w ws r s) = [] \<and>
     \<not> writing (end_write w ws r s) \<and> inflight (end_write w ws r s) = []"
  by (auto simp add: end_write_def sched_inv_def one_write_def timers_inv_def settle_def Let_def
      split: option.splits)

lemma sched_inv_reschedule:
  "sched_inv s \<Longrightarrow> timers s = [] \<Longrightarrow> \<not> writing s \<Longrightarrow> sched_inv (reschedule s)"
  by (auto simp add: reschedule_def sched_inv_store split: option.splits)
    (auto simp add: sched_inv_def one_write_def timers_inv_def setTimeout_def)

lemma sched_inv_write_finished: "sched_inv s \<Longrightarrow> sched_inv (write_finished r s)"
  by (cases "inflight s")
    (simp_all add: write_finished_def sched_inv_end_write sched_inv_reschedule)

lemma sched_inv_step: "sched_inv s \<Longrightarrow> sched_inv (step e s)"
proof (cases e)
  case (Update u)
  assume "sched_inv s"
  then have "sched_inv (s\<lparr>payload := assignDeepWithDelete (payload s) u,
       meta := (meta s)\<lparr>lastUpdate := now s\<rparr>\<rparr>)"
    by (simp add: sched_inv_def one_write_def timers_inv_def)
  then show ?thesis using Update by (simp add: update_def Let_def sched_inv_store)
next
  case Flush
  then show "sched_inv s \<Longrightarrow> ?thesis" by (simp add: flush_def sched_inv_store)
next
  case (TimerFires h)
  assume "sched_inv s"
  then have "sched_inv (s\<lparr>timers := filter (\<lambda>e. fst e \<noteq> h) (timers s)\<rparr>)"
    by (auto simp add: sched_inv_def one_write_def timers_inv_def)
  with \<open>sched_inv s\<close> show ?thesis using TimerFires
    by (simp add: timer_fires_def sched_inv_store split: option.splits)
next
  case (WriteFinished r)
  then show "sched_inv s \<Longrightarrow> ?thesis" by (simp add: sched_inv_write_finished)
next
  case (Tick n)
  then show "sched_inv s \<Longrightarrow> ?thesis"
    by (simp add: sched_inv_def one_write_def timers_inv_def)
qed

lemma sched_inv_run: "sched_inv s \<Longrightarrow> sched_inv (run es s)"
  by (induction es arbitrary: s) (simp_all add: sched_inv_step)

lemma JsonDb_new_idle:
  "writing (JsonDb_new opts t f) = False"
  "scheduled (JsonDb_new opts t f) = None"
  "promises (JsonDb_new opts t f) = []"
  "timers (JsonDb_new opts t f) = []"
  "inflight (JsonDb_new opts t f) = []"
  "write_log (JsonDb_new opts t f) = []"
  "done_log (JsonDb_new opts t f) = []"
  "options (JsonDb_new opts t f) = opts"
  "now (JsonDb_new opts t f) = t"
  by (simp_all add: JsonDb_new_def Let_def split: prod.splits sum.splits option.splits)

lemma sched_inv_new: "sched_inv (JsonDb_new opts t f)"
  by (simp add: sched_inv_def one_write_def timers_inv_def JsonDb_new_idle)


section \<open>Every pending ticket is held\<close>

lemma set_pending_tickets:
  "set (pending_tickets s) = {p. p < length (promises s) \<and> promises s ! p = (Ticket, Pending)}"
  by (auto simp add: pending_tickets_def)

lemma set_held_tickets:
  "set (held_tickets s) =
     set (ticket_handle (scheduled s)) \<union> (\<Union>w \<in> set (inflight s). set (ticket_handle (ticket w)))"
  by (simp add: held_tickets_def)

lemma pending_settle:
  "st \<noteq> Pending \<Longrightarrow> set (pending_tickets (settle p st s)) = set (pending_tickets s) - {p}"
  by (auto simp add: set_pending_tickets settle_def nth_list_update prod_eq_iff)

lemma held_settle [simp]: "held_tickets (settle p st s) = held_tickets s"
  by (simp add: held_tickets_def settle_def)

lemma tickets_held_store:
  assumes "tickets_held s"
  shows "tickets_held (snd (store d s))"
proof (cases rule: store_cases [of s d])
  case (coalesce_old t)
  with assms show ?thesis
    by (simp add: tickets_held_def set_held_tickets ticket_handle_def
        pending_tickets_def)
next
  case coalesce_new
  with assms show ?thesis
    by (auto simp add: tickets_held_def set_held_tickets ticket_handle_def
        set_pending_tickets nth_append less_Suc_eq)
next
  case (wait t)
  with assms show ?thesis by simp
next
  case arm
  with assms show ?thesis
    by (auto simp add: tickets_held_def set_held_tickets ticket_handle_def
        set_pending_tickets nth_append less_Suc_eq)
next
  case start
  with assms show ?thesis
    by (auto simp add: tickets_held_def set_held_tickets ticket_handle_def
        set_pending_tickets nth_append less_Suc_eq)
qed

lemma tickets_held_end_write:
  assumes "tickets_held s" and "inflight s = w # ws"
  shows "tickets_held (end_write w ws r s)"
proof (cases "ticket w")
  case None
  with assms show ?thesis
    by (auto simp add: tickets_held_def end_write_def Let_def set_held_tickets ticket_handle_def
        pending_tickets_def)
next
  case (Some t)
  let ?s1 = "s\<lparr>inflight := ws, done_log := done_log s @ [(now s, r)],
                 disk := (case r of None \<Rightarrow> Json (content w) | Some e \<Rightarrow> disk s)\<rparr>"
  let ?st = "case r of None \<Rightarrow> Fulfilled | Some e \<Rightarrow> Rejected e"
  have st: "?st \<noteq> Pending" by (cases r) simp_all
  have "set (pending_tickets (settle (promise t) ?st ?s1)) = set (pending_tickets s) - {promise t}"
    by (simp add: pending_settle [OF st]) (simp add: pending_tickets_def)
  moreover have "pending_tickets ((settle (promise t) ?st ?s1)\<lparr>writing := False\<rparr>) =
      pending_tickets (settle (promise t) ?st ?s1)"
    by (simp add: pending_tickets_def)
  moreover have "set (held_tickets ((settle (promise t) ?st ?s1)\<lparr>writing := False\<rparr>)) =
      set (ticket_handle (scheduled s)) \<union> (\<Union>w \<in> set ws. set (ticket_handle (ticket w)))"
    by (simp add: set_held_tickets settle_def)
  moreover have "set (held_tickets s) = insert (promise t)
      (set (ticket_handle (scheduled s)) \<union> (\<Union>w \<in> set ws. set (ticket_handle (ticket w))))"
    using assms(2) Some by (simp add: set_held_tickets ticket_handle_def)
  ultimately show ?thesis
    using assms(1) Some by (auto simp add: tickets_held_def end_write_def Let_def)
qed

lemma tickets_held_reschedule:
  assumes "tickets_held s"
  shows "tickets_held (reschedule s)"
proof (cases "scheduled s")
  case None
  with assms show ?thesis by (simp add: reschedule_def)
next
  case (Some ns)
  have "tickets_held (s\<lparr>timers := timers s @ [(next_timer s, x)], next_timer := Suc (next_timer s),
      scheduled := Some (ns\<lparr>timer := Some (next_timer s)\<rparr>)\<rparr>)" for x
    using assms Some
    by (simp add: tickets_held_def set_held_tickets ticket_handle_def pending_tickets_def)
  with assms Some show ?thesis
    by (simp add: reschedule_def tickets_held_store setTimeout_def)
qed

lemma tickets_held_settle:
  "st \<noteq> Pending \<Longrightarrow> tickets_held s \<Longrightarrow> tickets_held (settle p st s)"
  by (auto simp add: tickets_held_def pending_settle)

lemma tickets_held_write_finished: "tickets_held s \<Longrightarrow> tickets_held (write_finished r s)"
  by (cases "inflight s")
    (simp_all add: write_finished_def tickets_held_end_write tickets_held_reschedule
      tickets_held_settle)

lemma tickets_held_step: "tickets_held s \<Longrightarrow> tickets_held (step e s)"
proof (cases e)
  case (Update u)
  assume "tickets_held s"
  then have "tickets_held (s\<lparr>payload := assignDeepWithDelete (payload s) u,
       meta := (meta s)\<lparr>lastUpdate := now s\<rparr>\<rparr>)"
    by (simp add: tickets_held_def pending_tickets_def held_tickets_def)
  then show ?thesis using Update by (simp add: update_def Let_def tickets_held_store)
next
  case Flush
  then show "tickets_held s \<Longrightarrow> ?thesis" by (simp add: flush_def tickets_held_store)
next
  case (TimerFires h)
  assume "tickets_held s"
  then have "tickets_held (s\<lparr>timers := filter (\<lambda>e. fst e \<noteq> h) (timers s)\<rparr>)"
    by (simp add: tickets_held_def pending_tickets_def held_tickets_def)
  with \<open>tickets_held s\<close> show ?thesis using TimerFires
    by (simp add: timer_fires_def tickets_held_store split: option.splits)
next
  case (WriteFinished r)
  then show "tickets_held s \<Longrightarrow> ?thesis" by (simp add: tickets_held_write_finished)
next
  case (Tick n)
  then show "tickets_held s \<Longrightarrow> ?thesis"
    by (simp add: tickets_held_def pending_tickets_def held_tickets_def)
qed

lemma tickets_held_run: "tickets_held s \<Longrightarrow> tickets_held (run es s)"
  by (induction es arbitrary: s) (simp_all add: tickets_held_step)


section \<open>The history of writes\<close>

lemma spaced_snoc:
  "spaced thr (xs @ [e]) \<longleftrightarrow>
     spaced thr xs \<and> (xs \<noteq> [] \<longrightarrow> \<not> w_urgent e \<longrightarrow> w_started (last xs) + thr \<le> w_started e)"
proof (induction thr xs rule: spaced.induct)
  case (1 thr a b es)
  then show ?case by auto
qed simp_all

lemma spaced_nth:
  "spaced thr xs \<Longrightarrow> Suc i < length xs \<Longrightarrow> \<not> w_urgent (xs ! Suc i) \<Longrightarrow>
     w_started (xs ! i) + thr \<le> w_started (xs ! Suc i)"
proof (induction thr xs arbitrary: i rule: spaced.induct)
  case (1 thr a b es)
  then show ?case by (cases i) simp_all
qed simp_all

lemma options_store [simp]: "options (snd (store d s)) = options s"
  by (cases rule: store_cases [of s d]) simp_all

lemma options_settle [simp]: "options (settle p st s) = options s"
  by (simp add: settle_def)

lemma options_write_finished [simp]: "options (write_finished r s) = options s"
  by (simp add: write_finished_def end_write_def reschedule_def setTimeout_def Let_def
      split: list.splits option.splits)

lemma options_step [simp]: "options (step e s) = options s"
  by (cases e) (simp_all add: update_def flush_def timer_fires_def Let_def split: option.splits)

lemma options_run [simp]: "options (run es s) = options s"
  by (induction es arbitrary: s) simp_all

lemma log_inv_store:
  assumes "sched_inv s" and "log_inv s"
  shows "log_inv (snd (store d s))"
proof (cases rule: store_cases [of s d])
  case start
  from assms(1) start(1) have "inflight s = []"
    by (simp add: sched_inv_def one_write_def)
  with assms(2) start show ?thesis
    by (auto simp add: log_inv_def spaced_snoc)
qed (use assms(2) in \<open>simp_all add: log_inv_def\<close>)

lemma log_inv_settle [simp]: "log_inv (settle p st s) = log_inv s"
  by (simp add: log_inv_def settle_def)

lemma log_inv_end_write:
  "log_inv s \<Longrightarrow> inflight s = w # ws \<Longrightarrow> log_inv (end_write w ws r s)"
  by (auto simp add: log_inv_def end_write_def Let_def settle_def split: option.splits)

lemma log_inv_reschedule:
  "sched_inv s \<Longrightarrow> log_inv s \<Longrightarrow> log_inv (reschedule s)"
  by (auto simp add: reschedule_def log_inv_store split: option.splits)
    (simp add: log_inv_def setTimeout_def)

lemma log_inv_write_finished:
  "sched_inv s \<Longrightarrow> log_inv s \<Longrightarrow> log_inv (write_finished r s)"
  by (cases "inflight s")
    (simp_all add: write_finished_def log_inv_end_write log_inv_reschedule sched_inv_end_write)

lemma log_inv_step:
  assumes "sched_inv s" and "log_inv s"
  shows "log_inv (step e s)"
proof (cases e)
  case (Update u)
  let ?s = "s\<lparr>payload := assignDeepWithDelete (payload s) u,
       meta := (meta s)\<lparr>lastUpdate := now s\<rparr>\<rparr>"
  from assms have "sched_inv ?s" and "log_inv ?s"
    by (simp_all add: sched_inv_def one_write_def timers_inv_def log_inv_def)
  then show ?thesis using Update by (simp add: update_def Let_def log_inv_store)
next
  case Flush
  with assms show ?thesis by (simp add: flush_def log_inv_store)
next
  case (TimerFires h)
  let ?s = "s\<lparr>timers := filter (\<lambda>e. fst e \<noteq> h) (timers s)\<rparr>"
  from assms have "sched_inv ?s" and "log_inv ?s"
    by (auto simp add: sched_inv_def one_write_def timers_inv_def log_inv_def)
  with assms show ?thesis using TimerFires
    by (simp add: timer_fires_def log_inv_store split: option.splits)
next
  case (WriteFinished r)
  with assms show ?thesis by (simp add: log_inv_write_finished)
next
  case (Tick n)
  with assms show ?thesis by (simp add: log_inv_def)
qed

lemma log_inv_run: "sched_inv s \<Longrightarrow> log_inv s \<Longrightarrow> log_inv (run es s)"
  by (induction es arbitrary: s) (simp_all add: log_inv_step sched_inv_step)

lemma log_inv_new: "log_inv (JsonDb_new opts t f)"
  by (simp add: log_inv_def JsonDb_new_idle)


section \<open>Calls during a write\<close>

lemma run_snoc: "run (es @ [e]) s = step e (run es s)"
  by (induction es arbitrary: s) simp_all

lemma run_append: "run (es @ es') s = run es' (run es s)"
  by (induction es arbitrary: s) simp_all

lemma coalesced_refl: "writing s \<Longrightarrow> coalesced s s"
  by (simp add: coalesced_def ticket_handle_def split: option.splits)

lemma store_during_write:
  assumes "writing s"
  shows "writing (snd (store d s)) \<and> inflight (snd (store d s)) = inflight s \<and>
         write_log (snd (store d s)) = write_log s \<and>
         timers (snd (store d s)) = timers s \<and>
         ticket_handle (scheduled (snd (store d s))) = [fst (store d s)] \<and>
         (case scheduled s of
            Some t \<Rightarrow> promises (snd (store d s)) = promises s \<and> fst (store d s) = promise t
          | None \<Rightarrow> fst (store d s) = length (promises s) \<and>
              promises (snd (store d s)) = promises s @ [(Ticket, Pending)]) \<and>
         (owed s = 1 \<or> truthy d \<longrightarrow> owed (snd (store d s)) = 1)"
  using assms
  by (cases rule: store_cases [of s d])
    (auto simp add: ticket_handle_def owed_def split: option.splits if_splits)

lemma step_during_write:
  assumes "sched_inv s" and "writing s" and "\<not> is_completion e"
  shows "writing (step e s) \<and> inflight (step e s) = inflight s \<and>
         write_log (step e s) = write_log s \<and>
         (case scheduled s of
            Some t \<Rightarrow> promises (step e s) = promises s \<and>
                      ticket_handle (scheduled (step e s)) = [promise t]
          | None \<Rightarrow> scheduled (step e s) = None \<and> promises (step e s) = promises s \<or>
                    ticket_handle (scheduled (step e s)) = [length (promises s)] \<and>
                    promises (step e s) = promises s @ [(Ticket, Pending)]) \<and>
         (owed s = 1 \<or> e = Flush \<longrightarrow> owed (step e s) = 1)"
proof (cases e)
  case (Update u)
  let ?s = "s\<lparr>payload := assignDeepWithDelete (payload s) u,
       meta := (meta s)\<lparr>lastUpdate := now s\<rparr>\<rparr>"
  have w: "writing ?s" using assms(2) by simp
  have o: "owed ?s = owed s" by (simp add: owed_def)
  show ?thesis
    using store_during_write [OF w, of None] Update o
    by (auto simp add: update_def Let_def truthy_def split: option.splits)
next
  case Flush
  show ?thesis
    using store_during_write [OF assms(2), of "Some True"] Flush
    by (auto simp add: flush_def truthy_def split: option.splits)
next
  case (TimerFires h)
  from assms(1,2) have "timers s = []" by (simp add: sched_inv_def timers_inv_def)
  with assms(2) TimerFires show ?thesis
    by (simp add: timer_fires_def ticket_handle_def split: option.splits)
next
  case (WriteFinished r)
  with assms(3) show ?thesis by simp
next
  case (Tick n)
  with assms(2) show ?thesis
    by (simp add: ticket_handle_def owed_def split: option.splits)
qed

lemma run_during_write:
  assumes "sched_inv s" and "writing s" and "\<forall>e \<in> set cs. \<not> is_completion e"
  shows "coalesced s (run cs s) \<and> (owed s = 1 \<or> Flush \<in> set cs \<longrightarrow> owed (run cs s) = 1)"
  using assms(3)
proof (induction cs rule: rev_induct)
  case Nil
  show ?case using assms(2) by (simp add: coalesced_refl)
next
  case (snoc e cs)
  let ?m = "run cs s"
  from snoc have ih: "coalesced s ?m" and ow: "owed s = 1 \<or> Flush \<in> set cs \<longrightarrow> owed ?m = 1"
    and ne: "\<not> is_completion e" by simp_all
  have inv: "sched_inv ?m" using assms(1) by (rule sched_inv_run)
  have wr: "writing ?m" using ih by (simp add: coalesced_def)
  note st = step_during_write [OF inv wr ne]
  have "coalesced s (step e ?m)"
  proof (cases "scheduled s")
    case None
    with ih st show ?thesis
      by (auto simp add: coalesced_def ticket_handle_def split: option.splits)
  next
    case (Some t)
    with ih st show ?thesis
      by (auto simp add: coalesced_def ticket_handle_def split: option.splits)
  qed
  moreover have "owed s = 1 \<or> Flush \<in> set (cs @ [e]) \<longrightarrow> owed (step e ?m) = 1"
    using ow st by auto
  ultimately show ?case by (simp add: run_snoc)
qed

lemma tickets_held_new: "tickets_held (JsonDb_new opts t f)"
  by (simp add: tickets_held_def pending_tickets_def JsonDb_new_idle)

lemma owed_le_1: "owed s \<le> 1"
  by (simp add: owed_def split: option.splits)

lemma flush_handle_is_the_ticket:
  assumes "sched_inv s" and "writing s"
    and "\<forall>e \<in> set cs1. \<not> is_completion e" and "\<forall>e \<in> set cs2. \<not> is_completion e"
  shows "ticket_handle (scheduled (run (cs1 @ Flush # cs2) s)) = [fst (flush (run cs1 s))]"
proof -
  let ?m = "run cs1 s"
  have inv: "sched_inv ?m" using assms(1) by (rule sched_inv_run)
  have wr: "writing ?m"
    using run_during_write [OF assms(1,2,3)] by (simp add: coalesced_def)
  let ?m' = "snd (flush ?m)"
  have h: "ticket_handle (scheduled ?m') = [fst (flush ?m)]" and wr': "writing ?m'"
    using store_during_write [OF wr, of "Some True"] by (simp_all add: flush_def)
  have inv': "sched_inv ?m'" using inv by (simp add: flush_def sched_inv_store)
  from h obtain t where t: "scheduled ?m' = Some t" "promise t = fst (flush ?m)"
    by (auto simp add: ticket_handle_def split: option.splits)
  have "coalesced ?m' (run cs2 ?m')"
    using run_during_write [OF inv' wr' assms(4)] by simp
  with t have "ticket_handle (scheduled (run cs2 ?m')) = [fst (flush ?m)]"
    by (simp add: coalesced_def)
  then show ?thesis by (simp add: run_append)
qed

lemma store_wait_log:
  "\<not> writing s \<Longrightarrow> scheduled s = Some t \<Longrightarrow>
     write_log (snd (store None s)) = write_log s \<and> owed (snd (store None s)) = owed s"
  by (cases rule: store_cases [of s None]) (simp_all add: truthy_def)

lemma store_urgent_log:
  "\<not> writing s \<Longrightarrow>
     write_log (snd (store (Some True) s)) = write_log s @
       [\<lparr>w_started = now s, w_urgent = True,
         w_content = stored_data ((meta s)\<lparr>lastSync := now s\<rparr>)
           (case beforeSync (options s) of Some h \<Rightarrow> h (payload s) | None \<Rightarrow> payload s)\<rparr>] \<and>
     scheduled (snd (store (Some True) s)) = None \<and>
     inflight (snd (store (Some True) s)) = inflight s @
       [\<lparr>ticket = scheduled s, own = length (promises s),
         content = stored_data ((meta s)\<lparr>lastSync := now s\<rparr>)
           (case beforeSync (options s) of Some h \<Rightarrow> h (payload s) | None \<Rightarrow> payload s),
         started = now s\<rparr>]"
  by (cases rule: store_cases [of s "Some True"]) (simp_all add: truthy_def)

lemma end_write_fields:
  "write_log (end_write w ws r s) = write_log s"
  "scheduled (end_write w ws r s) = scheduled s"
  "meta (end_write w ws r s) = meta s"
  "payload (end_write w ws r s) = payload s"
  "options (end_write w ws r s) = options s"
  "now (end_write w ws r s) = now s"
  "inflight (end_write w ws r s) = ws"
  "writing (end_write w ws r s) = False"
  "timers (end_write w ws r s) = timers s"
  "next_timer (end_write w ws r s) = next_timer s"
  "disk (end_write w ws r s) = (case r of None \<Rightarrow> Json (content w) | Some e \<Rightarrow> disk s)"
  by (simp_all add: end_write_def Let_def settle_def split: option.splits)

lemma settle_fields:
  "write_log (settle p st s) = write_log s"
  "scheduled (settle p st s) = scheduled s"
  "meta (settle p st s) = meta s"
  "payload (settle p st s) = payload s"
  "now (settle p st s) = now s"
  "inflight (settle p st s) = inflight s"
  "writing (settle p st s) = writing s"
  "timers (settle p st s) = timers s"
  "next_timer (settle p st s) = next_timer s"
  "disk (settle p st s) = disk s"
  by (simp_all add: settle_def)

lemma owed_settle [simp]: "owed (settle p st s) = owed s"
  by (simp add: owed_def settle_fields)

lemma write_finished_owed:
  assumes "inflight s = w # ws"
  shows "length (write_log (write_finished r s)) + owed (write_finished r s) =
         length (write_log s) + owed s"
proof (cases "scheduled s")
  case None
  with assms show ?thesis
    by (simp add: write_finished_def reschedule_def end_write_fields settle_fields owed_def)
next
  case (Some ns)
  show ?thesis
  proof (cases "truthy (doItNow ns)")
    case True
    have nw: "\<not> writing (end_write w ws r s)" by (simp add: end_write_fields)
    from assms Some True show ?thesis
      using store_urgent_log [OF nw]
      by (simp add: write_finished_def reschedule_def end_write_fields settle_fields owed_def)
  next
    case False
    with assms Some show ?thesis
      by (simp add: write_finished_def reschedule_def end_write_fields settle_fields owed_def
          setTimeout_def)
  qed
qed

lemma write_finished_urgent:
  assumes "inflight s = w # ws" and "owed s = 1"
  shows "write_log (write_finished r s) = write_log s @
       [\<lparr>w_started = now s, w_urgent = True,
         w_content = stored_data ((meta s)\<lparr>lastSync := now s\<rparr>)
           (case beforeSync (options s) of Some h \<Rightarrow> h (payload s) | None \<Rightarrow> payload s)\<rparr>] \<and>
     map ticket (inflight (write_finished r s)) = map ticket ws @ [scheduled s]"
proof -
  from assms(2) obtain ns where ns: "scheduled s = Some ns" "truthy (doItNow ns)"
    by (auto simp add: owed_def split: option.splits if_splits)
  have nw: "\<not> writing (end_write w ws r s)" by (simp add: end_write_fields)
  from assms(1) ns show ?thesis
    using store_urgent_log [OF nw]
    by (simp add: write_finished_def reschedule_def end_write_fields settle_fields
        cong: option.case_cong)
qed

lemma env_step_owed:
  assumes "sched_inv s" and "\<not> is_call e"
  shows "length (write_log (step e s)) + owed (step e s) \<le> length (write_log s) + owed s"
proof (cases e)
  case (TimerFires h)
  show ?thesis
  proof (cases "map_of (timers s) h")
    case None
    with TimerFires show ?thesis by (simp add: timer_fires_def)
  next
    case (Some due)
    then have "(h, due) \<in> set (timers s)" by (rule map_of_SomeD)
    with assms(1) obtain t where t: "scheduled s = Some t" and nw: "\<not> writing s"
      by (auto simp add: sched_inv_def timers_inv_def split: option.splits)
    let ?s = "s\<lparr>timers := filter (\<lambda>e. fst e \<noteq> h) (timers s)\<rparr>"
    have "write_log (snd (store None ?s)) = write_log ?s \<and> owed (snd (store None ?s)) = owed ?s"
      using nw t by (intro store_wait_log) simp_all
    moreover have "owed ?s = owed s" by (simp add: owed_def)
    ultimately show ?thesis using TimerFires Some by (simp add: timer_fires_def)
  qed
next
  case (WriteFinished r)
  then show ?thesis
    by (cases "inflight s") (simp_all add: write_finished_owed, simp add: write_finished_def)
next
  case (Tick n)
  then show ?thesis by (simp add: owed_def)
qed (use assms(2) in simp_all)

lemma env_run_owed:
  assumes "sched_inv s" and "\<forall>e \<in> set env. \<not> is_call e"
  shows "length (write_log (run env s)) + owed (run env s) \<le> length (write_log s) + owed s"
  using assms
proof (induction env arbitrary: s)
  case Nil
  show ?case by simp
next
  case (Cons e env)
  have "length (write_log (run env (step e s))) + owed (run env (step e s)) \<le>
        length (write_log (step e s)) + owed (step e s)"
    using Cons.prems by (intro Cons.IH) (simp_all add: sched_inv_step)
  also have "\<dots> \<le> length (write_log s) + owed s"
    using Cons.prems by (intro env_step_owed) simp_all
  finally show ?case by simp
qed


section \<open>The callback of a timer\<close>

text \<open>
  A timer that fires calls \<open>store()\<close> without an argument while its own ticket is
  still in \<open>scheduled\<close>; the call takes the branch of line 268 and returns the ticket's
  promise. It starts no write: the ticket is written by the next \<open>flush()\<close>.
\<close>

lemma timer_callback_starts_no_write:
  assumes "sched_inv s"
  shows "write_log (timer_fires h s) = write_log s \<and> writing (timer_fires h s) = writing s \<and>
         scheduled (timer_fires h s) = scheduled s \<and> promises (timer_fires h s) = promises s"
proof (cases "map_of (timers s) h")
  case None
  then show ?thesis by (simp add: timer_fires_def)
next
  case (Some due)
  then have "(h, due) \<in> set (timers s)" by (rule map_of_SomeD)
  with assms obtain t where t: "scheduled s = Some t" and nw: "\<not> writing s"
    by (auto simp add: sched_inv_def timers_inv_def split: option.splits)
  let ?s = "s\<lparr>timers := filter (\<lambda>e. fst e \<noteq> h) (timers s)\<rparr>"
  have "store None ?s = (promise t, ?s)"
    using nw t by (cases rule: store_cases [of ?s None]) (simp_all add: truthy_def)
  with Some show ?thesis by (simp add: timer_fires_def)
qed


section \<open>The claims about the scheduler\<close>

lemmas opt_defs = no_options_def opt_throwIfNotExists_def opt_initialData_def opt_syncThrottle_def

lemmas eval_defs = store_def coalesce_def arm_def begin_write_def getSchedule_def new_promise_def
  setTimeout_def clearTimeout_def sync_begin_def write_finished_def end_write_def reschedule_def
  settle_def update_def flush_def timer_fires_def truthy_def stored_data_def

lemma JsonDb_new_NoFile:
  "\<not> opt_throwIfNotExists opts \<Longrightarrow> JsonDb_new opts t NoFile =
   \<lparr>meta = \<lparr>createTime = t, lastUpdate = 0, lastSync = 0\<rparr>,
    options = opts, payload = opt_initialData opts, writing = False, scheduled = None,
    isInitDone = None, now = t, promises = [], timers = [], next_timer = 0,
    inflight = [], disk = NoFile, write_log = [], done_log = []\<rparr>"
  by (simp add: JsonDb_new_def read_def opt_initialData_def split: option.splits)

lemma meta_write_finished:
  assumes "inflight s = w # ws"
  shows "meta (write_finished r s) =
           (if owed s = 1 then (meta s)\<lparr>lastSync := now s\<rparr> else meta s) \<and>
         disk (write_finished r s) = (case r of None \<Rightarrow> Json (content w) | Some e \<Rightarrow> disk s)"
proof (cases "scheduled s")
  case None
  with assms show ?thesis
    by (simp add: write_finished_def reschedule_def end_write_fields settle_fields owed_def)
next
  case (Some ns)
  have nw: "\<not> writing (end_write w ws r s)" by (simp add: end_write_fields)
  show ?thesis
  proof (cases "truthy (doItNow ns)")
    case True
    have "meta (snd (store (Some True) (end_write w ws r s))) = (meta s)\<lparr>lastSync := now s\<rparr> \<and>
          disk (snd (store (Some True) (end_write w ws r s))) = disk (end_write w ws r s)"
      using nw by (cases rule: store_cases [of "end_write w ws r s" "Some True"])
        (simp_all add: truthy_def end_write_fields)
    with assms Some True show ?thesis
      by (simp add: write_finished_def reschedule_def end_write_fields settle_fields owed_def)
  next
    case False
    with assms Some show ?thesis
      by (simp add: write_finished_def reschedule_def end_write_fields settle_fields owed_def
          setTimeout_def)
  qed
qed

lemma write_finished_idle:
  assumes "inflight s = [w]" and "scheduled s = None"
  shows "\<not> writing (write_finished r s)" "scheduled (write_finished r s) = None"
    "timers (write_finished r s) = timers s" "next_timer (write_finished r s) = next_timer s"
    "write_log (write_finished r s) = write_log s" "now (write_finished r s) = now s"
    "options (write_finished r s) = options s"
  using assms
  by (simp_all add: write_finished_def reschedule_def end_write_fields settle_fields)

text \<open>
  C1. In every state a store can reach, at most one write is in flight, \<open>writing\<close> says
  whether one is, and every pending ticket is the one in \<open>scheduled\<close> or the one
  detached by the write in flight. While a write is in flight, any sequence \<open>cs\<close> of
  calls to \<open>update\<close> and \<open>flush\<close> (with time passing and timers between them) starts no
  write and creates at most one ticket; every \<open>flush\<close> among them returns the promise
  of the ticket held at the end. When the write in flight ends with \<open>r\<close>, and whatever
  the timers and later completions \<open>env\<close> do, at most one more write starts; when a
  \<open>flush\<close> was among the calls it starts at once and writes the payload as the calls
  left it.
\<close>

theorem at_most_one_write_and_coalescing:
  assumes "s = run es (JsonDb_new opts t f)"
    and "writing s"
    and "\<forall>e \<in> set cs. \<not> is_completion e"
    and "\<forall>e \<in> set env. \<not> is_call e"
  shows "at_most_one s \<and>
         at_most_one (run cs s) \<and>
         write_log (run cs s) = write_log s \<and>
         inflight (run cs s) = inflight s \<and>
         length (promises (run cs s)) \<le> Suc (length (promises s)) \<and>
         (\<forall>cs1 cs2. cs = cs1 @ Flush # cs2 \<longrightarrow>
            ticket_handle (scheduled (run cs s)) = [fst (flush (run cs1 s))]) \<and>
         length (write_log (run env (write_finished r (run cs s)))) \<le> Suc (length (write_log s)) \<and>
         (Flush \<in> set cs \<longrightarrow>
            write_log (write_finished r (run cs s)) = write_log s @
              [\<lparr>w_started = now (run cs s), w_urgent = True,
                w_content = stored_data ((meta (run cs s))\<lparr>lastSync := now (run cs s)\<rparr>)
                  (case beforeSync opts of Some h \<Rightarrow> h (payload (run cs s))
                   | None \<Rightarrow> payload (run cs s))\<rparr>]) \<and>
         at_most_one (run es' (JsonDb_new opts' t' f'))"
proof -
  have g: "at_most_one (run es' (JsonDb_new opts' t' f'))"
    by (simp add: at_most_one_def sched_inv_run [OF sched_inv_new, unfolded sched_inv_def]
        tickets_held_run tickets_held_new)
  have inv: "sched_inv s" "tickets_held s"
    unfolding assms(1)
    by (simp_all add: sched_inv_run sched_inv_new tickets_held_run tickets_held_new)
  let ?m = "run cs s"
  have invm: "sched_inv ?m" "tickets_held ?m"
    using inv by (simp_all add: sched_inv_run tickets_held_run)
  note dw = run_during_write [OF inv(1) assms(2,3)]
  then have co: "coalesced s ?m" and ow: "Flush \<in> set cs \<longrightarrow> owed ?m = 1" by simp_all
  have a: "at_most_one s" "at_most_one ?m"
    using inv invm by (simp_all add: at_most_one_def sched_inv_def)
  have b: "write_log ?m = write_log s" "inflight ?m = inflight s"
    using co by (simp_all add: coalesced_def)
  have c: "length (promises ?m) \<le> Suc (length (promises s))"
    using co by (auto simp add: coalesced_def split: option.splits)
  have d: "ticket_handle (scheduled ?m) = [fst (flush (run cs1 s))]" if "cs = cs1 @ Flush # cs2" for cs1 cs2
    using flush_handle_is_the_ticket [OF inv(1) assms(2), of cs1 cs2] assms(3) that by simp
  have "length (write_log (run (WriteFinished r # env) ?m)) + owed (run (WriteFinished r # env) ?m)
      \<le> length (write_log ?m) + owed ?m"
    using invm(1) assms(4) by (intro env_run_owed) simp_all
  then have e: "length (write_log (run env (write_finished r ?m))) \<le> Suc (length (write_log s))"
    using owed_le_1 [of ?m] b(1) by simp
  from inv(1) assms(2) obtain w where w: "inflight s = [w]"
    by (cases "inflight s") (auto simp add: sched_inv_def one_write_def)
  have f: "write_log (write_finished r ?m) = write_log s @
              [\<lparr>w_started = now ?m, w_urgent = True,
                w_content = stored_data ((meta ?m)\<lparr>lastSync := now ?m\<rparr>)
                  (case beforeSync opts of Some h \<Rightarrow> h (payload ?m) | None \<Rightarrow> payload ?m)\<rparr>]"
    if "Flush \<in> set cs"
  proof -
    have "options ?m = opts" by (simp add: assms(1) JsonDb_new_idle)
    moreover have "inflight ?m = w # []" using b(2) w by simp
    moreover have "owed ?m = 1" using ow that by simp
    ultimately show ?thesis using write_finished_urgent [of ?m w "[]" r] b(1) by simp
  qed
  from a b c d e f g show ?thesis by blast
qed

theorem at_most_one_write_and_coalescing_witness:
  "writing (run [Update (JObj [(''a'', JNum 1)])]
      (JsonDb_new (no_options\<lparr>syncThrottle := Some 100\<rparr>) 1000 NoFile)) \<and>
   at_most_one (run [Update (JObj [(''a'', JNum 2)]), Flush, Tick 5, Update (JObj [(''b'', JNum 3)]), Flush]
     (run [Update (JObj [(''a'', JNum 1)])]
      (JsonDb_new (no_options\<lparr>syncThrottle := Some 100\<rparr>) 1000 NoFile))) \<and>
   length (promises (run [Update (JObj [(''a'', JNum 2)]), Flush, Tick 5, Update (JObj [(''b'', JNum 3)]), Flush]
     (run [Update (JObj [(''a'', JNum 1)])]
      (JsonDb_new (no_options\<lparr>syncThrottle := Some 100\<rparr>) 1000 NoFile)))) = 2 \<and>
   ticket_handle (scheduled (run [Update (JObj [(''a'', JNum 2)]), Flush, Tick 5, Update (JObj [(''b'', JNum 3)]), Flush]
     (run [Update (JObj [(''a'', JNum 1)])]
      (JsonDb_new (no_options\<lparr>syncThrottle := Some 100\<rparr>) 1000 NoFile)))) =
     [fst (flush (run [Update (JObj [(''a'', JNum 2)])]
       (run [Update (JObj [(''a'', JNum 1)])]
         (JsonDb_new (no_options\<lparr>syncThrottle := Some 100\<rparr>) 1000 NoFile))))] \<and>
   length (write_log (run [Tick 3, WriteFinished None, Tick 200, TimerFires 0]
     (write_finished None
       (run [Update (JObj [(''a'', JNum 2)]), Flush, Tick 5, Update (JObj [(''b'', JNum 3)]), Flush]
         (run [Update (JObj [(''a'', JNum 1)])]
           (JsonDb_new (no_options\<lparr>syncThrottle := Some 100\<rparr>) 1000 NoFile)))))) = 2 \<and>
   map w_content (write_log (write_finished None
       (run [Update (JObj [(''a'', JNum 2)]), Flush, Tick 5, Update (JObj [(''b'', JNum 3)]), Flush]
         (run [Update (JObj [(''a'', JNum 1)])]
           (JsonDb_new (no_options\<lparr>syncThrottle := Some 100\<rparr>) 1000 NoFile))))) =
     [stored_data \<lparr>createTime = 1000, lastUpdate = 1000, lastSync = 1000\<rparr> (JObj [(''a'', JNum 1)]),
      stored_data \<lparr>createTime = 1000, lastUpdate = 1005, lastSync = 1005\<rparr>
        (JObj [(''a'', JNum 2), (''b'', JNum 3)])]"
  using at_most_one_write_and_coalescing [of "run [Update (JObj [(''a'', JNum 1)])]
                  (JsonDb_new (no_options\<lparr>syncThrottle := Some 100\<rparr>) 1000 NoFile)"
               "[Update (JObj [(''a'', JNum 1)])]" "no_options\<lparr>syncThrottle := Some 100\<rparr>" 1000 NoFile
               "[Update (JObj [(''a'', JNum 2)]), Flush, Tick 5, Update (JObj [(''b'', JNum 3)]), Flush]"
               "[Tick 3, WriteFinished None, Tick 200, TimerFires 0]" None]
  by (simp add: opt_defs JsonDb_new_NoFile eval_defs Let_def at_most_one_def one_write_def
      tickets_held_def pending_tickets_def held_tickets_def ticket_handle_def)

text \<open>
  C2, as the code has it. A store built at a time \<open>t\<close> of at least 100 over no file, with
  \<open>syncThrottle\<close> 100 and the empty document, has \<open>lastSync = 0\<close>, so the throttle
  window is over: \<open>update({a:1})\<close> starts a write of \<open>{a:1}\<close> at once.
  \<open>update({a:2,b:3})\<close> and \<open>flush()\<close>, called while that write is in flight, share one
  ticket, whose promise \<open>flush()\<close> returns. When the first write ends, one more write
  starts, of \<open>{a:2,b:3}\<close>; the promise is pending until that second write ends and is
  fulfilled when it is written. Two writes reach the file.
\<close>

theorem scenario_two_writes:
  assumes "100 \<le> t"
  shows "map w_content (write_log (run
           [Update (JObj [(''a'', JNum 1)]), Update (JObj [(''a'', JNum 2), (''b'', JNum 3)]), Flush]
           (JsonDb_new (no_options\<lparr>syncThrottle := Some 100, initialData := Some (JObj [])\<rparr>)
              t NoFile))) =
           [stored_data \<lparr>createTime = t, lastUpdate = t, lastSync = t\<rparr> (JObj [(''a'', JNum 1)])] \<and>
         fst (flush (run
           [Update (JObj [(''a'', JNum 1)]), Update (JObj [(''a'', JNum 2), (''b'', JNum 3)])]
           (JsonDb_new (no_options\<lparr>syncThrottle := Some 100, initialData := Some (JObj [])\<rparr>)
              t NoFile))) = 1 \<and>
         promises (run
           [Update (JObj [(''a'', JNum 1)]), Update (JObj [(''a'', JNum 2), (''b'', JNum 3)]), Flush]
           (JsonDb_new (no_options\<lparr>syncThrottle := Some 100, initialData := Some (JObj [])\<rparr>)
              t NoFile)) ! 1 = (Ticket, Pending) \<and>
         map w_content (write_log (run
           [Update (JObj [(''a'', JNum 1)]), Update (JObj [(''a'', JNum 2), (''b'', JNum 3)]), Flush,
            Tick d1, WriteFinished None]
           (JsonDb_new (no_options\<lparr>syncThrottle := Some 100, initialData := Some (JObj [])\<rparr>)
              t NoFile))) =
           [stored_data \<lparr>createTime = t, lastUpdate = t, lastSync = t\<rparr> (JObj [(''a'', JNum 1)]),
            stored_data \<lparr>createTime = t, lastUpdate = t, lastSync = t + int d1\<rparr>
              (JObj [(''a'', JNum 2), (''b'', JNum 3)])] \<and>
         promises (run
           [Update (JObj [(''a'', JNum 1)]), Update (JObj [(''a'', JNum 2), (''b'', JNum 3)]), Flush,
            Tick d1, WriteFinished None]
           (JsonDb_new (no_options\<lparr>syncThrottle := Some 100, initialData := Some (JObj [])\<rparr>)
              t NoFile)) ! 1 = (Ticket, Pending) \<and>
         promises (run
           [Update (JObj [(''a'', JNum 1)]), Update (JObj [(''a'', JNum 2), (''b'', JNum 3)]), Flush,
            Tick d1, WriteFinished None, Tick d2, WriteFinished None]
           (JsonDb_new (no_options\<lparr>syncThrottle := Some 100, initialData := Some (JObj [])\<rparr>)
              t NoFile)) ! 1 = (Ticket, Fulfilled) \<and>
         disk (run
           [Update (JObj [(''a'', JNum 1)]), Update (JObj [(''a'', JNum 2), (''b'', JNum 3)]), Flush,
            Tick d1, WriteFinished None, Tick d2, WriteFinished None]
           (JsonDb_new (no_options\<lparr>syncThrottle := Some 100, initialData := Some (JObj [])\<rparr>)
              t NoFile)) =
           Json (stored_data \<lparr>createTime = t, lastUpdate = t, lastSync = t + int d1\<rparr>
              (JObj [(''a'', JNum 2), (''b'', JNum 3)])) \<and>
         length (write_log (run
           [Update (JObj [(''a'', JNum 1)]), Update (JObj [(''a'', JNum 2), (''b'', JNum 3)]), Flush,
            Tick d1, WriteFinished None, Tick d2, WriteFinished None]
           (JsonDb_new (no_options\<lparr>syncThrottle := Some 100, initialData := Some (JObj [])\<rparr>)
              t NoFile))) = 2"
  using assms
  by (simp add: opt_defs JsonDb_new_NoFile eval_defs Let_def)

theorem scenario_two_writes_witness:
  "(100::int) \<le> 1700000000000 \<and>
   length (write_log (run
           [Update (JObj [(''a'', JNum 1)]), Update (JObj [(''a'', JNum 2), (''b'', JNum 3)]), Flush,
            Tick 7, WriteFinished None, Tick 9, WriteFinished None]
           (JsonDb_new (no_options\<lparr>syncThrottle := Some 100, initialData := Some (JObj [])\<rparr>)
              1700000000000 NoFile))) = 2 \<and>
   promises (run
           [Update (JObj [(''a'', JNum 1)]), Update (JObj [(''a'', JNum 2), (''b'', JNum 3)]), Flush,
            Tick 7, WriteFinished None]
           (JsonDb_new (no_options\<lparr>syncThrottle := Some 100, initialData := Some (JObj [])\<rparr>)
              1700000000000 NoFile)) ! 1 = (Ticket, Pending) \<and>
   promises (run
           [Update (JObj [(''a'', JNum 1)]), Update (JObj [(''a'', JNum 2), (''b'', JNum 3)]), Flush,
            Tick 7, WriteFinished None, Tick 9, WriteFinished None]
           (JsonDb_new (no_options\<lparr>syncThrottle := Some 100, initialData := Some (JObj [])\<rparr>)
              1700000000000 NoFile)) ! 1 = (Ticket, Fulfilled)"
  using scenario_two_writes [of 1700000000000 7 9]
  by simp

text \<open>
  The scenario as C2 states it, at time 1000: the history holds two writes, the first
  of \<open>{a:1}\<close>, not one.
\<close>

theorem scenario_one_write_counterexample:
  "length (write_log (run
      [Update (JObj [(''a'', JNum 1)]), Update (JObj [(''a'', JNum 2), (''b'', JNum 3)]), Flush,
       WriteFinished None, WriteFinished None]
      (JsonDb_new (no_options\<lparr>syncThrottle := Some 100, initialData := Some (JObj [])\<rparr>)
         1000 NoFile))) \<noteq> 1 \<and>
   map w_content (write_log (run
      [Update (JObj [(''a'', JNum 1)]), Update (JObj [(''a'', JNum 2), (''b'', JNum 3)]), Flush,
       WriteFinished None, WriteFinished None]
      (JsonDb_new (no_options\<lparr>syncThrottle := Some 100, initialData := Some (JObj [])\<rparr>)
         1000 NoFile))) =
     [stored_data \<lparr>createTime = 1000, lastUpdate = 1000, lastSync = 1000\<rparr>
        (JObj [(''a'', JNum 1)]),
      stored_data \<lparr>createTime = 1000, lastUpdate = 1000, lastSync = 1000\<rparr>
        (JObj [(''a'', JNum 2), (''b'', JNum 3)])]"
  by (simp add: opt_defs JsonDb_new_NoFile eval_defs Let_def)

text \<open>
  C3, as the code has it. \<open>lastSync\<close> is set when a write starts, so the throttle
  separates starts: in the history of any store, a write that was not urgent started
  at least \<open>syncThrottle\<close> after the start of the write before it.
\<close>

theorem throttle_between_starts:
  assumes "Suc i < length (write_log (run es (JsonDb_new opts t f)))"
    and "\<not> w_urgent (write_log (run es (JsonDb_new opts t f)) ! Suc i)"
  shows "w_started (write_log (run es (JsonDb_new opts t f)) ! i) + opt_syncThrottle opts \<le>
         w_started (write_log (run es (JsonDb_new opts t f)) ! Suc i)"
proof -
  have "log_inv (run es (JsonDb_new opts t f))"
    by (simp add: log_inv_run sched_inv_new log_inv_new)
  then have "spaced (opt_syncThrottle opts) (write_log (run es (JsonDb_new opts t f)))"
    by (simp add: log_inv_def JsonDb_new_idle)
  then show ?thesis using assms by (rule spaced_nth)
qed

theorem throttle_between_starts_witness:
  "Suc 0 < length (write_log (run
       [Update (JObj [(''a'', JNum 1)]), Tick 80, WriteFinished None, Tick 20,
        Update (JObj [(''a'', JNum 2)])]
       (JsonDb_new (no_options\<lparr>syncThrottle := Some 100\<rparr>) 1000 NoFile))) \<and>
   \<not> w_urgent (write_log (run
       [Update (JObj [(''a'', JNum 1)]), Tick 80, WriteFinished None, Tick 20,
        Update (JObj [(''a'', JNum 2)])]
       (JsonDb_new (no_options\<lparr>syncThrottle := Some 100\<rparr>) 1000 NoFile)) ! Suc 0) \<and>
   w_started (write_log (run
       [Update (JObj [(''a'', JNum 1)]), Tick 80, WriteFinished None, Tick 20,
        Update (JObj [(''a'', JNum 2)])]
       (JsonDb_new (no_options\<lparr>syncThrottle := Some 100\<rparr>) 1000 NoFile)) ! 0) +
     opt_syncThrottle (no_options\<lparr>syncThrottle := Some 100\<rparr>) \<le>
   w_started (write_log (run
       [Update (JObj [(''a'', JNum 1)]), Tick 80, WriteFinished None, Tick 20,
        Update (JObj [(''a'', JNum 2)])]
       (JsonDb_new (no_options\<lparr>syncThrottle := Some 100\<rparr>) 1000 NoFile)) ! Suc 0)"
  using throttle_between_starts
    [of 0 "[Update (JObj [(''a'', JNum 1)]), Tick 80, WriteFinished None, Tick 20,
            Update (JObj [(''a'', JNum 2)])]"
        "no_options\<lparr>syncThrottle := Some 100\<rparr>" 1000 NoFile]
  by (simp add: opt_defs JsonDb_new_NoFile eval_defs Let_def)

text \<open>
  Measured from the end of the write before, the spacing of C3 fails: a write that
  starts at 1000 and ends at 1080 is followed by a write, not urgent, that starts at
  1100, with a throttle of 100.
\<close>

theorem throttle_from_completion_counterexample:
  "\<not> w_urgent (write_log (run
       [Update (JObj [(''a'', JNum 1)]), Tick 80, WriteFinished None, Tick 20,
        Update (JObj [(''a'', JNum 2)])]
       (JsonDb_new (no_options\<lparr>syncThrottle := Some 100\<rparr>) 1000 NoFile)) ! 0) \<and>
   \<not> w_urgent (write_log (run
       [Update (JObj [(''a'', JNum 1)]), Tick 80, WriteFinished None, Tick 20,
        Update (JObj [(''a'', JNum 2)])]
       (JsonDb_new (no_options\<lparr>syncThrottle := Some 100\<rparr>) 1000 NoFile)) ! 1) \<and>
   done_log (run
       [Update (JObj [(''a'', JNum 1)]), Tick 80, WriteFinished None, Tick 20,
        Update (JObj [(''a'', JNum 2)])]
       (JsonDb_new (no_options\<lparr>syncThrottle := Some 100\<rparr>) 1000 NoFile)) = [(1080, None)] \<and>
   w_started (write_log (run
       [Update (JObj [(''a'', JNum 1)]), Tick 80, WriteFinished None, Tick 20,
        Update (JObj [(''a'', JNum 2)])]
       (JsonDb_new (no_options\<lparr>syncThrottle := Some 100\<rparr>) 1000 NoFile)) ! 1) = 1100 \<and>
   \<not> (fst (done_log (run
       [Update (JObj [(''a'', JNum 1)]), Tick 80, WriteFinished None, Tick 20,
        Update (JObj [(''a'', JNum 2)])]
       (JsonDb_new (no_options\<lparr>syncThrottle := Some 100\<rparr>) 1000 NoFile)) ! 0) +
       opt_syncThrottle (no_options\<lparr>syncThrottle := Some 100\<rparr>) \<le>
     w_started (write_log (run
       [Update (JObj [(''a'', JNum 1)]), Tick 80, WriteFinished None, Tick 20,
        Update (JObj [(''a'', JNum 2)])]
       (JsonDb_new (no_options\<lparr>syncThrottle := Some 100\<rparr>) 1000 NoFile)) ! 1))"
  by (simp add: opt_defs JsonDb_new_NoFile eval_defs Let_def)

text \<open>
  C4 at a failing input. \<open>flush()\<close> on an idle store runs the write itself, with no
  ticket; \<open>writeFile\<close> fails with \<open>EIO\<close>; the \<open>catch\<close> block finds no ticket to reject,
  and the promise \<open>flush()\<close> returned is fulfilled although nothing was written. No
  promise is rejected.
\<close>

theorem flush_failure_is_swallowed:
  "writing (snd (flush (JsonDb_new no_options 1000 NoFile))) \<and>
   promises (write_finished (Some (IoError ''EIO'')) (snd (flush (JsonDb_new no_options 1000 NoFile))))
     ! fst (flush (JsonDb_new no_options 1000 NoFile)) = (Invocation, Fulfilled) \<and>
   map snd (promises (write_finished (Some (IoError ''EIO''))
     (snd (flush (JsonDb_new no_options 1000 NoFile))))) = [Fulfilled] \<and>
   disk (write_finished (Some (IoError ''EIO'')) (snd (flush (JsonDb_new no_options 1000 NoFile)))) =
     NoFile"
  by (simp add: opt_defs JsonDb_new_NoFile eval_defs Let_def)

text \<open>
  What an urgent \<open>flush()\<close> does in each state of the scheduler. On an idle store it
  starts its write in the call. On a store that is not writing and holds a ticket, it
  detaches the ticket, clears its timer and starts the write in the call, creating no
  ticket; the end of the write settles the ticket's promise with its outcome. While a
  write is in flight it sets the urgency of the ticket held, which stays set under
  every later call, creates no promise, and returns the ticket's promise.
\<close>

lemma urgent_flush_cases:
  "(\<not> writing s \<and> scheduled s = None \<longrightarrow>
      fst (flush s) = length (promises s) \<and>
      writing (snd (flush s)) \<and> scheduled (snd (flush s)) = None \<and>
      promises (snd (flush s)) = promises s @ [(Invocation, Pending)] \<and>
      write_log (snd (flush s)) = write_log s @
        [\<lparr>w_started = now s, w_urgent = True,
          w_content = stored_data ((meta s)\<lparr>lastSync := now s\<rparr>)
            (case beforeSync (options s) of Some h \<Rightarrow> h (payload s) | None \<Rightarrow> payload s)\<rparr>]) \<and>
   (\<not> writing s \<and> scheduled s = Some t \<longrightarrow>
      fst (flush s) = length (promises s) \<and>
      writing (snd (flush s)) \<and> scheduled (snd (flush s)) = None \<and>
      promises (snd (flush s)) = promises s @ [(Invocation, Pending)] \<and>
      inflight (snd (flush s)) = inflight s @
        [\<lparr>ticket = Some t, own = length (promises s),
          content = stored_data ((meta s)\<lparr>lastSync := now s\<rparr>)
            (case beforeSync (options s) of Some h \<Rightarrow> h (payload s) | None \<Rightarrow> payload s),
          started = now s\<rparr>] \<and>
      (\<forall>h. timer t = Some h \<longrightarrow> h \<notin> fst ` set (timers (snd (flush s)))) \<and>
      (inflight s = [] \<and> promise t < length (promises s) \<and>
       promises s ! promise t = (Ticket, Pending) \<longrightarrow>
         promises (write_finished r (snd (flush s))) ! promise t =
           (Ticket, case r of None \<Rightarrow> Fulfilled | Some e \<Rightarrow> Rejected e) \<and>
         promises (write_finished None (snd (flush s))) ! fst (flush s) = (Invocation, Fulfilled))) \<and>
   (writing s \<and> scheduled s = Some t \<longrightarrow>
      flush s = (promise t, s\<lparr>scheduled := Some (t\<lparr>doItNow := Some True\<rparr>)\<rparr>) \<and>
      scheduled (snd (store d (snd (flush s)))) = Some (t\<lparr>doItNow := Some True\<rparr>) \<and>
      promises (snd (store d (snd (flush s)))) = promises s)"
proof -
  have a: "fst (flush s) = length (promises s) \<and>
      writing (snd (flush s)) \<and> scheduled (snd (flush s)) = None \<and>
      promises (snd (flush s)) = promises s @ [(Invocation, Pending)] \<and>
      write_log (snd (flush s)) = write_log s @
        [\<lparr>w_started = now s, w_urgent = True,
          w_content = stored_data ((meta s)\<lparr>lastSync := now s\<rparr>)
            (case beforeSync (options s) of Some h \<Rightarrow> h (payload s) | None \<Rightarrow> payload s)\<rparr>] \<and>
      inflight (snd (flush s)) = inflight s @
        [\<lparr>ticket = scheduled s, own = length (promises s),
          content = stored_data ((meta s)\<lparr>lastSync := now s\<rparr>)
            (case beforeSync (options s) of Some h \<Rightarrow> h (payload s) | None \<Rightarrow> payload s),
          started = now s\<rparr>] \<and>
      timers (snd (flush s)) =
        (case scheduled s of
           None \<Rightarrow> timers s
         | Some t \<Rightarrow> (case timer t of
               None \<Rightarrow> timers s
             | Some h \<Rightarrow> filter (\<lambda>e. fst e \<noteq> h) (timers s)))"
    if "\<not> writing s"
    unfolding flush_def using that
    by (cases rule: store_cases [of s "Some True"]) (simp_all add: truthy_def)
  have b: "promises (write_finished r (snd (flush s))) ! promise t =
           (Ticket, case r of None \<Rightarrow> Fulfilled | Some e \<Rightarrow> Rejected e) \<and>
         promises (write_finished None (snd (flush s))) ! fst (flush s) = (Invocation, Fulfilled)"
    if "\<not> writing s" and "scheduled s = Some t" and "inflight s = []"
      and "promise t < length (promises s)" and "promises s ! promise t = (Ticket, Pending)"
    using a [OF that(1)] that(2-5)
    by (simp add: write_finished_def end_write_def reschedule_def settle_def Let_def
        nth_append nth_list_update)
  have c: "flush s = (promise t, s\<lparr>scheduled := Some (t\<lparr>doItNow := Some True\<rparr>)\<rparr>) \<and>
      scheduled (snd (store d (snd (flush s)))) = Some (t\<lparr>doItNow := Some True\<rparr>) \<and>
      promises (snd (store d (snd (flush s)))) = promises s"
    if "writing s" and "scheduled s = Some t"
    using that by (simp add: flush_def store_def coalesce_def truthy_def)
  from a b c show ?thesis by (auto split: option.splits)
qed

text \<open>
  C7 at a failing input. A ticket that is not urgent waits on its timer; \<open>flush()\<close>
  promotes it: the write starts in the call, at the time of the call, and no second
  ticket is created. \<open>writeFile\<close> fails with \<open>EIO\<close>: the ticket's promise is rejected,
  but the promise \<open>flush()\<close> returned is that of the invocation and is fulfilled. The
  urgent caller does not get the result of the batch it promoted.
\<close>

theorem urgent_promotion_swallows_failure:
  "\<not> writing (run [Flush, WriteFinished None, Tick 50, Update (JObj [(''a'', JNum 1)])]
      (JsonDb_new (no_options\<lparr>syncThrottle := Some 100\<rparr>) 1000 NoFile)) \<and>
   scheduled (run [Flush, WriteFinished None, Tick 50, Update (JObj [(''a'', JNum 1)])]
      (JsonDb_new (no_options\<lparr>syncThrottle := Some 100\<rparr>) 1000 NoFile)) =
     Some \<lparr>timer = Some 0, doItNow = None, promise = 1\<rparr> \<and>
   fst (flush (run [Flush, WriteFinished None, Tick 50, Update (JObj [(''a'', JNum 1)])]
      (JsonDb_new (no_options\<lparr>syncThrottle := Some 100\<rparr>) 1000 NoFile))) = 2 \<and>
   map started (inflight (snd (flush
     (run [Flush, WriteFinished None, Tick 50, Update (JObj [(''a'', JNum 1)])]
      (JsonDb_new (no_options\<lparr>syncThrottle := Some 100\<rparr>) 1000 NoFile))))) = [1050] \<and>
   scheduled (snd (flush
     (run [Flush, WriteFinished None, Tick 50, Update (JObj [(''a'', JNum 1)])]
      (JsonDb_new (no_options\<lparr>syncThrottle := Some 100\<rparr>) 1000 NoFile)))) = None \<and>
   promises (snd (flush
     (run [Flush, WriteFinished None, Tick 50, Update (JObj [(''a'', JNum 1)])]
      (JsonDb_new (no_options\<lparr>syncThrottle := Some 100\<rparr>) 1000 NoFile)))) =
     [(Invocation, Fulfilled), (Ticket, Pending), (Invocation, Pending)] \<and>
   promises (write_finished (Some (IoError ''EIO'')) (snd (flush
     (run [Flush, WriteFinished None, Tick 50, Update (JObj [(''a'', JNum 1)])]
      (JsonDb_new (no_options\<lparr>syncThrottle := Some 100\<rparr>) 1000 NoFile))))) =
     [(Invocation, Fulfilled), (Ticket, Rejected (IoError ''EIO'')), (Invocation, Fulfilled)]"
  by (simp add: opt_defs JsonDb_new_NoFile eval_defs Let_def)

text \<open>
  C10. A write that starts sets \<open>lastSync\<close> to the time of the call before anything
  reaches the file. So while a write is in flight \<open>lastSync\<close> is the time it started;
  when it fails, the file is as it was and \<open>lastSync\<close> is still that time (or the start
  of the urgent write that follows at once); and an \<open>update\<close> made after the failure,
  less than \<open>syncThrottle\<close> after the failed attempt started, starts no write: its
  ticket gets a timer due \<open>syncThrottle\<close> after that start.
\<close>

theorem lastSync_advances_on_failure:
  assumes "s = run es (JsonDb_new opts t f)" and "inflight s = w # ws"
  shows "lastSync (meta s) = started w \<and>
         disk (write_finished (Some e) s) = disk s \<and>
         lastSync (meta (write_finished (Some e) s)) = (if owed s = 1 then now s else started w) \<and>
         (scheduled s = None \<and> now s + int n < started w + opt_syncThrottle opts \<longrightarrow>
            \<not> writing (run [WriteFinished (Some e), Tick n, Update u] s) \<and>
            write_log (run [WriteFinished (Some e), Tick n, Update u] s) = write_log s \<and>
            timers (run [WriteFinished (Some e), Tick n, Update u] s) =
              [(next_timer s, started w + opt_syncThrottle opts)]) \<and>
         (\<not> writing s0 \<and> writing (snd (store d s0)) \<longrightarrow>
            lastSync (meta (snd (store d s0))) = now s0 \<and>
            disk (snd (store d s0)) = disk s0 \<and>
            map started (inflight (snd (store d s0))) = map started (inflight s0) @ [now s0])"
proof -
  have inv: "sched_inv s" "log_inv s"
    unfolding assms(1) by (simp_all add: sched_inv_run sched_inv_new log_inv_run log_inv_new)
  have opts: "options s = opts" by (simp add: assms(1) JsonDb_new_idle)
  from inv(1) assms(2) have ws: "ws = []" and wr: "writing s" and tm: "timers s = []"
    by (auto simp add: sched_inv_def one_write_def timers_inv_def)
  have a: "lastSync (meta s) = started w"
    using inv(2) assms(2) by (auto simp add: log_inv_def)
  note mw = meta_write_finished [OF assms(2), of "Some e"]
  have b: "disk (write_finished (Some e) s) = disk s" using mw by simp
  have c: "lastSync (meta (write_finished (Some e) s)) = (if owed s = 1 then now s else started w)"
    using mw a by simp
  have d: "\<not> writing (run [WriteFinished (Some e), Tick n, Update u] s) \<and>
            write_log (run [WriteFinished (Some e), Tick n, Update u] s) = write_log s \<and>
            timers (run [WriteFinished (Some e), Tick n, Update u] s) =
              [(next_timer s, started w + opt_syncThrottle opts)]"
    if none: "scheduled s = None" and lt: "now s + int n < started w + opt_syncThrottle opts"
  proof -
    let ?f = "write_finished (Some e) s"
    have w1: "inflight s = [w]" using assms(2) ws by simp
    note idle = write_finished_idle [OF w1 none, of "Some e"]
    have ow: "owed s = 0" using none by (simp add: owed_def)
    have ls: "lastSync (meta ?f) = started w" using mw a ow by simp
    let ?g = "?f\<lparr>now := now ?f + int n, payload := assignDeepWithDelete (payload ?f) u,
       meta := (meta ?f)\<lparr>lastUpdate := now ?f + int n\<rparr>\<rparr>"
    have g: "\<not> writing ?g" "scheduled ?g = None" "\<not> truthy None"
      "now ?g < lastSync (meta ?g) + opt_syncThrottle (options ?g)"
      using idle ls lt opts by (simp_all add: truthy_def)
    have "\<not> writing (snd (store None ?g)) \<and> write_log (snd (store None ?g)) = write_log s \<and>
          timers (snd (store None ?g)) = [(next_timer s, started w + opt_syncThrottle opts)]"
      using g idle ls lt opts tm
      by (cases rule: store_cases [of ?g None]) (simp_all add: truthy_def max_def)
    then show ?thesis by (simp add: update_def Let_def)
  qed
  have e': "lastSync (meta (snd (store d s0))) = now s0 \<and>
            disk (snd (store d s0)) = disk s0 \<and>
            map started (inflight (snd (store d s0))) = map started (inflight s0) @ [now s0]"
    if "\<not> writing s0" and "writing (snd (store d s0))"
    using that by (cases rule: store_cases [of s0 d]) simp_all
  from a b c d e' show ?thesis by blast
qed

theorem lastSync_advances_on_failure_witness:
  "inflight (run [Flush] (JsonDb_new (no_options\<lparr>syncThrottle := Some 100\<rparr>) 1000 NoFile)) =
     [\<lparr>ticket = None, own = 0,
       content = stored_data \<lparr>createTime = 1000, lastUpdate = 0, lastSync = 1000\<rparr> (JObj []),
       started = 1000\<rparr>] \<and>
   lastSync (meta (write_finished (Some (IoError ''ENOSPC''))
     (run [Flush] (JsonDb_new (no_options\<lparr>syncThrottle := Some 100\<rparr>) 1000 NoFile)))) = 1000 \<and>
   disk (write_finished (Some (IoError ''ENOSPC''))
     (run [Flush] (JsonDb_new (no_options\<lparr>syncThrottle := Some 100\<rparr>) 1000 NoFile))) = NoFile \<and>
   timers (run [WriteFinished (Some (IoError ''ENOSPC'')), Tick 30, Update (JObj [(''a'', JNum 1)])]
     (run [Flush] (JsonDb_new (no_options\<lparr>syncThrottle := Some 100\<rparr>) 1000 NoFile))) =
     [(0, 1100)] \<and>
   write_log (run [WriteFinished (Some (IoError ''ENOSPC'')), Tick 30, Update (JObj [(''a'', JNum 1)])]
     (run [Flush] (JsonDb_new (no_options\<lparr>syncThrottle := Some 100\<rparr>) 1000 NoFile))) =
   write_log (run [Flush] (JsonDb_new (no_options\<lparr>syncThrottle := Some 100\<rparr>) 1000 NoFile))"
  using lastSync_advances_on_failure
    [of "run [Flush] (JsonDb_new (no_options\<lparr>syncThrottle := Some 100\<rparr>) 1000 NoFile)"
        "[Flush]" "no_options\<lparr>syncThrottle := Some 100\<rparr>" 1000 NoFile
        "\<lparr>ticket = None, own = 0,
          content = stored_data \<lparr>createTime = 1000, lastUpdate = 0, lastSync = 1000\<rparr> (JObj []),
          started = 1000\<rparr>" "[]" "IoError ''ENOSPC''" 30 "JObj [(''a'', JNum 1)]"]
  by (simp add: opt_defs JsonDb_new_NoFile eval_defs Let_def)

end
